theory Spec2Isabelle
  imports Complex_Main "HOL-Library.Multiset" "HOL-Library.Word"
begin

unbundle bit_operations_syntax

section \<open>Numbers\<close>

text \<open>
  A JavaScript \<open>number\<close> is a binary64 value. It is modelled as the rational it stands for,
  or one of the three special values the scripts can produce (\<open>0 / 0\<close> is \<open>NaN\<close>). An
  arithmetic operation returns the exact result rounded to the nearest binary64 value, ties
  to even: \<open>fl\<close> is that rounding, to 53 significant bits. The exponent range of binary64
  (overflow to an infinity, subnormal numbers) is not modelled, and neither is the sign of
  zero: a zero divisor stands for \<open>+0\<close>, which is what \<open>length\<close> and the literals of the scripts
  give. Event durations are the \<open>int\<close> of the Avro schema.
\<close>

fun bit_length :: "nat \<Rightarrow> nat" where
  "bit_length n = (if n = 0 then 0 else Suc (bit_length (n div 2)))"

text \<open>The nearest integer, a half to the even neighbour.\<close>

definition round_half_even :: "rat \<Rightarrow> int" where
  "round_half_even t =
     (let f = \<lfloor>t\<rfloor>; r = t - of_int f
      in if r < 1 / 2 \<or> (r = 1 / 2 \<and> even f) then f else f + 1)"

text \<open>
  For a positive \<open>a\<close>, the \<open>l\<close> with \<open>2^l \<le> a < 2^(l + 1)\<close>: the difference of the bit lengths
  of numerator and denominator, or one less.
\<close>

definition floor_log2 :: "rat \<Rightarrow> int" where
  "floor_log2 a =
     (let (p, q) = quotient_of a;
          d = int (bit_length (nat p)) - int (bit_length (nat q))
      in if 2 powi d \<le> a then d else d - 1)"

definition fl :: "rat \<Rightarrow> rat" where
  "fl x =
     (if x = 0 then 0
      else let e = floor_log2 \<bar>x\<bar> - 52
           in sgn x * (of_int (round_half_even (\<bar>x\<bar> / 2 powi e)) * 2 powi e))"

text \<open>The nearest integer, a half towards \<open>+\<infinity>\<close>, as \<open>Math.round\<close> rounds.\<close>

definition round_half_up :: "rat \<Rightarrow> int" where
  "round_half_up a = \<lfloor>a + 1 / 2\<rfloor>"

datatype number = Num rat | PosInf | NegInf | NaN

text \<open>The infinity with the sign of a rational; \<open>NaN\<close> for zero.\<close>

definition inf_of_sign :: "rat \<Rightarrow> number" where
  "inf_of_sign s = (if 0 < s then PosInf else if s < 0 then NegInf else NaN)"

fun js_add :: "number \<Rightarrow> number \<Rightarrow> number" where
  "js_add (Num a) (Num b) = Num (fl (a + b))"
| "js_add (Num a) PosInf = PosInf"
| "js_add (Num a) NegInf = NegInf"
| "js_add PosInf (Num b) = PosInf"
| "js_add NegInf (Num b) = NegInf"
| "js_add PosInf PosInf = PosInf"
| "js_add NegInf NegInf = NegInf"
| "js_add PosInf NegInf = NaN"
| "js_add NegInf PosInf = NaN"
| "js_add NaN y = NaN"
| "js_add x NaN = NaN"

fun js_mul :: "number \<Rightarrow> number \<Rightarrow> number" where
  "js_mul (Num a) (Num b) = Num (fl (a * b))"
| "js_mul (Num a) PosInf = inf_of_sign a"
| "js_mul (Num a) NegInf = inf_of_sign (- a)"
| "js_mul PosInf (Num b) = inf_of_sign b"
| "js_mul NegInf (Num b) = inf_of_sign (- b)"
| "js_mul PosInf PosInf = PosInf"
| "js_mul PosInf NegInf = NegInf"
| "js_mul NegInf PosInf = NegInf"
| "js_mul NegInf NegInf = PosInf"
| "js_mul NaN y = NaN"
| "js_mul x NaN = NaN"

fun js_div :: "number \<Rightarrow> number \<Rightarrow> number" where
  "js_div (Num a) (Num b) = (if b = 0 then inf_of_sign a else Num (fl (a / b)))"
| "js_div (Num a) PosInf = Num 0"
| "js_div (Num a) NegInf = Num 0"
| "js_div PosInf (Num b) = (if 0 \<le> b then PosInf else NegInf)"
| "js_div NegInf (Num b) = (if 0 \<le> b then NegInf else PosInf)"
| "js_div PosInf y = NaN"
| "js_div NegInf y = NaN"
| "js_div NaN y = NaN"
| "js_div x NaN = NaN"

fun js_sub :: "number \<Rightarrow> number \<Rightarrow> number" where
  "js_sub (Num a) (Num b) = Num (fl (a - b))"
| "js_sub (Num a) PosInf = NegInf"
| "js_sub (Num a) NegInf = PosInf"
| "js_sub PosInf (Num b) = PosInf"
| "js_sub NegInf (Num b) = NegInf"
| "js_sub PosInf NegInf = PosInf"
| "js_sub NegInf PosInf = NegInf"
| "js_sub PosInf PosInf = NaN"
| "js_sub NegInf NegInf = NaN"
| "js_sub NaN y = NaN"
| "js_sub x NaN = NaN"

fun js_less :: "number \<Rightarrow> number \<Rightarrow> bool" where
  "js_less (Num a) (Num b) = (a < b)"
| "js_less (Num a) PosInf = True"
| "js_less NegInf (Num b) = True"
| "js_less NegInf PosInf = True"
| "js_less x y = False"

fun Math_abs :: "number \<Rightarrow> number" where
  "Math_abs (Num a) = Num \<bar>a\<bar>"
| "Math_abs PosInf = PosInf"
| "Math_abs NegInf = PosInf"
| "Math_abs NaN = NaN"

fun Math_round :: "number \<Rightarrow> number" where
  "Math_round (Num a) = Num (of_int (round_half_up a))"
| "Math_round x = x"

section \<open>Data model\<close>

record Event =
  userId :: string
  duration :: int

text \<open>The field \<open>id\<close> of the source is \<open>id_ua\<close> here, \<open>id\<close> being the identity function.\<close>

record UserAverage =
  id_ua :: string
  avg :: number

section \<open>Arrays and objects of the runtime\<close>

text \<open>
  \<open>Array.prototype.sort\<close> with a comparator that returns a negative number, zero or a
  positive number. The sort is stable, so for a consistent comparator its result is the one
  of a stable insertion sort; for an inconsistent one the language leaves the order to the
  implementation, and the model is then one admissible outcome.
\<close>

fun insert_by :: "('a \<Rightarrow> 'a \<Rightarrow> int) \<Rightarrow> 'a \<Rightarrow> 'a list \<Rightarrow> 'a list" where
  "insert_by cmp x [] = [x]"
| "insert_by cmp x (y # ys) = (if cmp x y \<le> 0 then x # y # ys else y # insert_by cmp x ys)"

definition array_sort :: "('a \<Rightarrow> 'a \<Rightarrow> int) \<Rightarrow> 'a list \<Rightarrow> 'a list" where
  "array_sort cmp xs = foldr (insert_by cmp) xs []"

text \<open>
  \<open>a.id.localeCompare(b.id)\<close>: the collation \<open>lc\<close> is the host's, a parameter of the model.
\<close>

definition by_id :: "(string \<Rightarrow> string \<Rightarrow> int) \<Rightarrow> UserAverage \<Rightarrow> UserAverage \<Rightarrow> int" where
  "by_id lc a b = lc (id_ua a) (id_ua b)"

text \<open>
  An object built by \<open>Object.groupBy\<close> is the list of its properties in creation order: each
  item goes to the end of the group of its key, and a key not seen before opens a new group
  after the others.
\<close>

fun add_to_group :: "string \<Rightarrow> 'a \<Rightarrow> (string \<times> 'a list) list \<Rightarrow> (string \<times> 'a list) list" where
  "add_to_group k x [] = [(k, [x])]"
| "add_to_group k x ((k', xs) # gs) =
     (if k' = k then (k', xs @ [x]) # gs else (k', xs) # add_to_group k x gs)"

definition Object_groupBy :: "'a list \<Rightarrow> ('a \<Rightarrow> string) \<Rightarrow> (string \<times> 'a list) list" where
  "Object_groupBy items f = foldl (\<lambda>gs x. add_to_group (f x) x gs) [] items"

text \<open>
  \<open>Object.entries\<close> lists the properties in the order of the own property keys: the keys that
  are array indices (canonical decimal numerals below \<open>2^32 - 1\<close>) in ascending numeric order
  first, then the other keys in creation order.
\<close>

definition is_digit :: "char \<Rightarrow> bool" where
  "is_digit c = (48 \<le> (of_char c :: nat) \<and> (of_char c :: nat) \<le> 57)"

definition digits_value :: "string \<Rightarrow> nat" where
  "digits_value s = foldl (\<lambda>n c. 10 * n + (of_char c - 48)) 0 s"

definition array_index :: "string \<Rightarrow> nat option" where
  "array_index s =
     (if s \<noteq> [] \<and> list_all is_digit s \<and> (hd s \<noteq> CHR ''0'' \<or> length s = 1)
         \<and> digits_value s < 2 ^ 32 - 1
      then Some (digits_value s) else None)"

definition OwnPropertyKeys :: "string list \<Rightarrow> string list" where
  "OwnPropertyKeys ks =
     sort_key (\<lambda>k. the (array_index k)) (filter (\<lambda>k. array_index k \<noteq> None) ks)
       @ filter (\<lambda>k. array_index k = None) ks"

definition Object_entries :: "(string \<times> 'v) list \<Rightarrow> (string \<times> 'v) list" where
  "Object_entries props =
     map (\<lambda>k. (k, the (map_of props k))) (OwnPropertyKeys (map fst props))"

section \<open>The reference computation and the local benchmark\<close>

text \<open>\<open>group.reduce((a, b) => a + b.duration, 0) / group.length\<close>\<close>

definition mean_duration :: "Event list \<Rightarrow> number" where
  "mean_duration grp =
     js_div (foldl (\<lambda>a b. js_add a (Num (of_int (duration b)))) (Num 0) grp)
       (Num (of_nat (length grp)))"

text \<open>\<open>Math.round(x * 100) / 100\<close>\<close>

definition round2 :: "number \<Rightarrow> number" where
  "round2 x = js_div (Math_round (js_mul x (Num 100))) (Num 100)"

definition computeCorrectAnswer :: "(string \<Rightarrow> string \<Rightarrow> int) \<Rightarrow> Event list \<Rightarrow> UserAverage list" where
  "computeCorrectAnswer lc events =
     (let filtered = filter (\<lambda>e. duration e \<ge> 50) events;
          grouped = Object_groupBy filtered userId;
          result = map (\<lambda>(i, grp). \<lparr>id_ua = i, avg = round2 (mean_duration grp)\<rparr>)
                     (Object_entries grouped)
      in array_sort (by_id lc) result)"

definition processEvents :: "Event list \<Rightarrow> UserAverage list" where
  "processEvents events =
     (let filtered = filter (\<lambda>e. duration e \<ge> 50) events;
          grouped = Object_groupBy filtered userId;
          result = map (\<lambda>(i, grp). \<lparr>id_ua = i, avg = mean_duration grp\<rparr>)
                     (Object_entries grouped)
      in result)"

text \<open>
  The normalize-and-sort step of \<open>executeGeneratedCode\<close> and \<open>askLLMToCompute\<close>:
  \<open>result.map((r) => ({ id: r.id, avg: Math.round(r.avg * 100) / 100 }))
     .sort((a, b) => a.id.localeCompare(b.id))\<close>
\<close>

definition normalize :: "(string \<Rightarrow> string \<Rightarrow> int) \<Rightarrow> UserAverage list \<Rightarrow> UserAverage list" where
  "normalize lc result =
     array_sort (by_id lc) (map (\<lambda>r. \<lparr>id_ua = id_ua r, avg = round2 (avg r)\<rparr>) result)"

text \<open>
  A collation to evaluate with: strings compared unit by unit on their codes, shorter first
  on a common prefix. The host's collation orders strings of ASCII digits and lower-case
  letters, such as \<open>user1\<close> .. \<open>user50\<close>, this way.
\<close>

fun code_unit_compare :: "string \<Rightarrow> string \<Rightarrow> int" where
  "code_unit_compare [] [] = 0"
| "code_unit_compare [] (y # ys) = - 1"
| "code_unit_compare (x # xs) [] = 1"
| "code_unit_compare (x # xs) (y # ys) =
     (if (of_char x :: nat) < of_char y then - 1
      else if (of_char y :: nat) < of_char x then 1
      else code_unit_compare xs ys)"

section \<open>What the specification says of the reference computation\<close>

text \<open>
  A comparator is usable for sorting when it is a total preorder; a collation that tells any
  two different strings apart is moreover antisymmetric.
\<close>

definition total_preorder :: "('a \<Rightarrow> 'a \<Rightarrow> int) \<Rightarrow> bool" where
  "total_preorder cmp \<longleftrightarrow>
     (\<forall>a b. cmp a b \<le> 0 \<or> cmp b a \<le> 0) \<and>
     (\<forall>a b c. cmp a b \<le> 0 \<and> cmp b c \<le> 0 \<longrightarrow> cmp a c \<le> 0)"

definition antisymmetric :: "('a \<Rightarrow> 'a \<Rightarrow> int) \<Rightarrow> bool" where
  "antisymmetric cmp \<longleftrightarrow> (\<forall>a b. cmp a b \<le> 0 \<and> cmp b a \<le> 0 \<longrightarrow> a = b)"

abbreviation ascending :: "('a \<Rightarrow> 'a \<Rightarrow> int) \<Rightarrow> 'a list \<Rightarrow> bool" where
  "ascending cmp \<equiv> sorted_wrt (\<lambda>a b. cmp a b \<le> 0)"

text \<open>The keys of a list in the order of their first occurrence.\<close>

definition first_keys :: "string list \<Rightarrow> string list" where
  "first_keys ks = rev (remdups (rev ks))"

text \<open>The mean of a list of durations as a \<open>number\<close> of the language: the sum by the count.\<close>

definition spec_mean :: "int list \<Rightarrow> number" where
  "spec_mean ds =
     js_div (foldl js_add (Num 0) (map (\<lambda>d. Num (of_int d)) ds)) (Num (of_nat (length ds)))"

text \<open>
  The average in the specification's words, \<open>round(mean(durations) * 100) / 100\<close>, read in
  binary64: the sum accumulated from the left, its quotient by the count, the product by 100
  and the quotient by 100 are each rounded to the nearest binary64 value; \<open>round\<close> is the
  nearest integer, a half upwards.
\<close>

definition spec_sum :: "int list \<Rightarrow> rat" where
  "spec_sum ds = foldl (\<lambda>a d. fl (a + of_int d)) 0 ds"

definition spec_avg :: "int list \<Rightarrow> rat" where
  "spec_avg ds =
     (let mean = fl (spec_sum ds / of_nat (length ds))
      in fl (of_int (round_half_up (fl (mean * 100))) / 100))"

text \<open>The same words read in exact arithmetic.\<close>

definition exact_avg :: "int list \<Rightarrow> rat" where
  "exact_avg ds = of_int (round_half_up (of_int (sum_list ds) / of_nat (length ds) * 100)) / 100"

text \<open>
  The algorithm in the specification's words: drop every event with \<open>duration < 50\<close>; for
  each user id of the list \<open>ids\<close> (the groups, in an arbitrary order) take the remaining events
  of that user and average their durations; sort by id under the collation.
\<close>

definition spec_compute :: "(string \<Rightarrow> string \<Rightarrow> int) \<Rightarrow> string list \<Rightarrow> Event list \<Rightarrow> UserAverage list" where
  "spec_compute lc ids events =
     (let kept = filter (\<lambda>e. \<not> duration e < 50) events
      in array_sort (by_id lc)
           (map (\<lambda>u. \<lparr>id_ua = u,
                       avg = Num (spec_avg (map duration (filter (\<lambda>e. userId e = u) kept)))\<rparr>)
              ids))"

section \<open>The scorer\<close>

record Comparison =
  match :: bool
  correctCount :: nat
  totalCount :: nat
  accuracy :: number

text \<open>\<open>Math.abs(act.avg - exp.avg) < 0.1\<close>; the literal \<open>0.1\<close> is the binary64 value nearest to it.\<close>

definition within_tolerance :: "UserAverage \<Rightarrow> UserAverage \<Rightarrow> bool" where
  "within_tolerance act e = js_less (Math_abs (js_sub (avg act) (avg e))) (Num (fl (1 / 10)))"

text \<open>
  \<open>actual\<close> is \<open>None\<close> for \<open>null\<close>; an array, empty or not, is truthy. \<open>actual.find\<close> returns
  the first entry that satisfies the test, as \<^const>\<open>List.find\<close> does.
\<close>

definition compareResults :: "UserAverage list \<Rightarrow> UserAverage list option \<Rightarrow> Comparison" where
  "compareResults expected actual =
     (case actual of
        None \<Rightarrow>
          \<lparr>match = False, correctCount = 0, totalCount = length expected, accuracy = Num 0\<rparr>
      | Some acts \<Rightarrow>
          (let correct =
                 foldl (\<lambda>n e.
                      (case find (\<lambda>a. id_ua a = id_ua e) acts of
                         None \<Rightarrow> n
                       | Some act \<Rightarrow> if within_tolerance act e then n + 1 else n))
                   0 expected
           in \<lparr>match = (correct = length expected \<and> length acts = length expected),
               correctCount = correct,
               totalCount = length expected,
               accuracy = Math_round (js_mul (js_div (Num (of_nat correct))
                                                 (Num (of_nat (length expected)))) (Num 100))\<rparr>))"

section \<open>Executing the generated code\<close>

text \<open>A number in a template literal: its decimal numeral.\<close>

function show_nat :: "nat \<Rightarrow> string" where
  "show_nat n =
     (if n < 10 then [char_of (48 + n)] else show_nat (n div 10) @ [char_of (48 + n mod 10)])"
  by pat_completeness auto
termination
  by (relation "measure (\<lambda>n. n)") auto

definition show_int :: "int \<Rightarrow> string" where
  "show_int i = (if i < 0 then CHR ''-'' # show_nat (nat (- i)) else show_nat (nat i))"

text \<open>\<open>String.prototype.trim\<close>, on the white space of ASCII.\<close>

definition is_space :: "char \<Rightarrow> bool" where
  "is_space c = ((of_char c :: nat) \<in> {9, 10, 11, 12, 13, 32})"

definition trim :: "string \<Rightarrow> string" where
  "trim s = rev (dropWhile is_space (rev (dropWhile is_space s)))"

record ExecResult =
  result :: "UserAverage list option"
  latencyMs :: int
  error :: "string option"

text \<open>
  The handler of the child's \<open>close\<close> event in \<open>executeGeneratedCode\<close>, which settles the
  promise. Its inputs are what the process left: the exit code (\<open>None\<close> for \<open>null\<close>, a child
  ended by a signal), the text captured from stdout and from stderr, and the measured
  latency. \<open>JSON_parse\<close> stands for the body of the \<open>try\<close> up to the normalization: it is
  \<open>None\<close> when \<open>JSON.parse\<close> throws or the parsed value is not an array of records.
\<close>

definition executeGeneratedCode ::
  "(string \<Rightarrow> string \<Rightarrow> int) \<Rightarrow> (string \<Rightarrow> UserAverage list option) \<Rightarrow> int
     \<Rightarrow> int option \<Rightarrow> string \<Rightarrow> string \<Rightarrow> ExecResult" where
  "executeGeneratedCode lc JSON_parse latency code stdout stderr =
     (if code \<noteq> Some 0 then
        \<lparr>result = None, latencyMs = latency,
         error = Some (if stderr \<noteq> [] then stderr
                       else ''Process exited with code '' @
                            (case code of None \<Rightarrow> ''null'' | Some n \<Rightarrow> show_int n))\<rparr>
      else
        (case JSON_parse (trim stdout) of
           Some r \<Rightarrow> \<lparr>result = Some (normalize lc r), latencyMs = latency, error = None\<rparr>
         | None \<Rightarrow>
             \<lparr>result = None, latencyMs = latency,
              error = Some (''Failed to parse output: '' @ take 200 stdout)\<rparr>))"

section \<open>The data generators\<close>

definition NUM_USERS :: int where "NUM_USERS = 50"
definition MIN_DURATION :: int where "MIN_DURATION = 10"
definition MAX_DURATION :: int where "MAX_DURATION = 200"

text \<open>
  The seeded generator computes \<open>current * 1103515245 + 12345\<close> in binary64. With
  \<open>current < 2^31\<close> the product is below \<open>2^62\<close>, beyond the \<open>2^53\<close> up to which every integer
  is a binary64 value: the product, and then the sum, are rounded. The operator \<open>&\<close> takes
  its left operand modulo \<open>2^32\<close>.
\<close>

definition lcg_next :: "nat \<Rightarrow> nat" where
  "lcg_next current =
     unat ((word_of_int \<lfloor>fl (fl (of_nat current * 1103515245) + 12345)\<rfloor> :: 32 word)
             AND 0x7fffffff)"

text \<open>The rounding \<open>fl\<close> on the naturals, computed with \<open>div\<close> and \<open>mod\<close>.\<close>

definition to_double :: "nat \<Rightarrow> nat" where
  "to_double n =
     (if n < 2 ^ 53 then n
      else let e = bit_length n - 53;
               q = n div 2 ^ e;
               r = n mod 2 ^ e;
               h = 2 ^ (e - 1)
           in (if r < h \<or> (r = h \<and> even q) then q else q + 1) * 2 ^ e)"

text \<open>\<open>return current / 0x7fffffff\<close>\<close>

definition random_value :: "nat \<Rightarrow> rat" where
  "random_value current = fl (of_nat current / 0x7fffffff)"

text \<open>
  The loop of \<open>generateEvents\<close>: \<open>i\<close> and \<open>current\<close> are its variables, \<open>events\<close> the array it
  pushes to, \<open>cnt\<close> the parameter \<open>count\<close>. Each event draws twice, the user first.
\<close>

function generateEvents_loop :: "nat \<Rightarrow> nat \<Rightarrow> nat \<Rightarrow> Event list \<Rightarrow> Event list" where
  "generateEvents_loop i cnt current events =
     (if i < cnt then
        (let c1 = lcg_next current;
             c2 = lcg_next c1
         in generateEvents_loop (i + 1) cnt c2
              (events @
               [\<lparr>userId = ''user'' @ show_int (\<lfloor>fl (random_value c1 * of_int NUM_USERS)\<rfloor> + 1),
                 duration =
                   \<lfloor>fl (random_value c2 * of_int (MAX_DURATION - MIN_DURATION + 1))\<rfloor>
                     + MIN_DURATION\<rparr>]))
      else events)"
  by pat_completeness auto
termination
  by (relation "measure (\<lambda>(i, cnt, current, events). cnt - i)") auto

definition generateEvents :: "nat \<Rightarrow> Event list" where
  "generateEvents cnt = generateEvents_loop 0 cnt 12345 []"

text \<open>
  The unseeded \<open>generateEvent\<close>: \<open>r1\<close> and \<open>r2\<close> are the two results of \<open>Math.random()\<close>, which
  the language puts in \<open>[0, 1)\<close>; the largest binary64 value below 1 is \<open>1 - 2^-53\<close>.
\<close>

definition generateEvent :: "rat \<Rightarrow> rat \<Rightarrow> Event" where
  "generateEvent r1 r2 =
     \<lparr>userId = ''user'' @ show_int (\<lfloor>fl (r1 * of_int NUM_USERS)\<rfloor> + 1),
      duration = \<lfloor>fl (r2 * of_int (MAX_DURATION - MIN_DURATION + 1))\<rfloor> + MIN_DURATION\<rparr>"

text \<open>
  The event that one iteration pushes when it starts with \<open>current = c\<close>, and the event of
  index \<open>i\<close>: the one drawn after \<open>2 * i\<close> steps from the seed.
\<close>

definition draw_event :: "nat \<Rightarrow> Event" where
  "draw_event c =
     \<lparr>userId =
        ''user'' @ show_int (\<lfloor>fl (random_value (lcg_next c) * of_int NUM_USERS)\<rfloor> + 1),
      duration =
        \<lfloor>fl (random_value (lcg_next (lcg_next c)) * of_int (MAX_DURATION - MIN_DURATION + 1))\<rfloor>
          + MIN_DURATION\<rparr>"

definition event_at :: "nat \<Rightarrow> Event" where
  "event_at i = draw_event ((lcg_next ^^ (2 * i)) 12345)"

section \<open>The sorting test\<close>

function arraysEqual_loop :: "'a list \<Rightarrow> 'a list \<Rightarrow> nat \<Rightarrow> bool" where
  "arraysEqual_loop a b i =
     (if i < length a then
        (if a ! i \<noteq> b ! i then False else arraysEqual_loop a b (i + 1))
      else True)"
  by pat_completeness auto
termination
  by (relation "measure (\<lambda>(a, b, i). length a - i)") auto

text \<open>The lengths are compared first, so the loop never reads \<open>b\<close> out of range.\<close>

definition arraysEqual :: "'a list \<Rightarrow> 'a list \<Rightarrow> bool" where
  "arraysEqual a b = (if length a \<noteq> length b then False else arraysEqual_loop a b 0)"

text \<open>What \<open>askLLMToSort\<close> returns: \<open>result\<close> is \<open>None\<close> for \<open>null\<close>, \<open>error\<close> is \<open>None\<close> when unset.\<close>

record SortResponse =
  sort_result :: "int list option"
  sort_tokensUsed :: nat
  sort_latencyMs :: int
  sort_error :: "string option"

record TestOutcome =
  passed :: bool
  tokensUsed :: nat
  test_latencyMs :: int

text \<open>A string in a condition: unset and the empty string are falsy.\<close>

definition truthy :: "string option \<Rightarrow> bool" where
  "truthy s = (case s of None \<Rightarrow> False | Some t \<Rightarrow> t \<noteq> [])"

text \<open>
  \<open>runSingleTest\<close> from the generated array \<open>numbers\<close> and the model's response on.
  \<open>[...numbers].sort((a, b) => a - b)\<close> is the sort by the comparator \<open>a - b\<close>.
\<close>

definition runSingleTest :: "int list \<Rightarrow> SortResponse \<Rightarrow> TestOutcome" where
  "runSingleTest numbers response =
     (let expectedSorted = array_sort (\<lambda>a b. a - b) numbers
      in if truthy (sort_error response) \<or> sort_result response = None then
           \<lparr>passed = False, tokensUsed = sort_tokensUsed response,
            test_latencyMs = sort_latencyMs response\<rparr>
         else
           \<lparr>passed = arraysEqual expectedSorted (the (sort_result response)),
            tokensUsed = sort_tokensUsed response,
            test_latencyMs = sort_latencyMs response\<rparr>)"

section \<open>Binary64 rounding\<close>

declare bit_length.simps [simp del]

declare show_nat.simps [simp del]

declare generateEvents_loop.simps [simp del]

declare arraysEqual_loop.simps [simp del]

lemma bit_length_upper: "n < 2 ^ bit_length n"
proof (induction n rule: bit_length.induct)
  case (1 n)
  show ?case
  proof (cases "n = 0")
    case True
    then show ?thesis by (simp add: bit_length.simps)
  next
    case False
    then have "n div 2 < 2 ^ bit_length (n div 2)" using 1 by simp
    then have "n < 2 * 2 ^ bit_length (n div 2)" by linarith
    then show ?thesis using False by (simp add: bit_length.simps [of n])
  qed
qed

lemma bit_length_lower: "0 < n \<Longrightarrow> 2 ^ (bit_length n - 1) \<le> n"
proof (induction n rule: bit_length.induct)
  case (1 n)
  show ?case
  proof (cases "n div 2 = 0")
    case True
    then have "bit_length n = 1" using 1(2) by (simp add: bit_length.simps [of n] bit_length.simps [of 0])
    then show ?thesis using 1(2) by simp
  next
    case False
    then have ih: "2 ^ (bit_length (n div 2) - 1) \<le> n div 2" using 1 by simp
    have pos: "0 < bit_length (n div 2)" using False by (simp add: bit_length.simps [of "n div 2"])
    have "bit_length n - 1 = Suc (bit_length (n div 2) - 1)"
      using 1(2) pos by (simp add: bit_length.simps [of n])
    then have "(2::nat) ^ (bit_length n - 1) = 2 * 2 ^ (bit_length (n div 2) - 1)" by simp
    also have "\<dots> \<le> 2 * (n div 2)" using ih by simp
    also have "\<dots> \<le> n" by simp
    finally show ?thesis .
  qed
qed

lemma bit_length_pos: "0 < n \<Longrightarrow> 0 < bit_length n"
  by (simp add: bit_length.simps [of n])

lemma round_half_even_error: "\<bar>of_int (round_half_even t) - t\<bar> \<le> 1 / 2"
proof -
  have "of_int \<lfloor>t\<rfloor> \<le> t" "t < of_int \<lfloor>t\<rfloor> + 1" by linarith+
  then show ?thesis by (auto simp: round_half_even_def Let_def)
qed

lemma round_half_even_int: "round_half_even (of_int k) = k"
  by (simp add: round_half_even_def)

lemma of_nat_less_pow2: "n < 2 ^ k \<Longrightarrow> (of_nat n :: rat) < 2 ^ k"
proof -
  assume "n < 2 ^ k"
  then have "(of_nat n :: rat) < of_nat (2 ^ k)" by (simp only: of_nat_less_iff)
  then show ?thesis by simp
qed

lemma pow2_le_of_nat: "2 ^ k \<le> n \<Longrightarrow> (2::rat) ^ k \<le> of_nat n"
proof -
  assume "2 ^ k \<le> n"
  then have "(of_nat (2 ^ k) :: rat) \<le> of_nat n" by (simp only: of_nat_le_iff)
  then show ?thesis by simp
qed

lemma powi_split: "i = j + int k \<Longrightarrow> (2::rat) ^ nat i = 2 powi j * 2 ^ k" if "0 \<le> i" for i j :: int
proof -
  assume "i = j + int k"
  then have "(2::rat) powi i = 2 powi j * 2 powi int k"
    by (simp add: power_int_add)
  then show ?thesis using that by (simp add: power_int_def)
qed

lemma floor_log2_bounds:
  assumes "0 < a"
  shows "2 powi floor_log2 a \<le> a \<and> a < 2 powi (floor_log2 a + 1)"
proof -
  obtain p q where pq: "quotient_of a = (p, q)" by (cases "quotient_of a")
  then have q: "0 < q" and a: "a = of_int p / of_int q"
    using quotient_of_denom_pos quotient_of_div by blast+
  have p: "0 < p" using assms q a by (simp add: zero_less_divide_iff)
  define P where "P = nat p"
  define Q where "Q = nat q"
  have P: "0 < P" "of_int p = (of_nat P :: rat)" using p by (simp_all add: P_def)
  have Q: "0 < Q" "of_int q = (of_nat Q :: rat)" using q by (simp_all add: Q_def)
  define bp where "bp = bit_length P"
  define bq where "bq = bit_length Q"
  define d where "d = int bp - int bq"
  have bp0: "0 < bp" and bq0: "0 < bq" using P Q by (simp_all add: bp_def bq_def bit_length_pos)
  have p_up: "(of_nat P :: rat) < 2 ^ bp"
    unfolding bp_def by (intro of_nat_less_pow2 bit_length_upper)
  have p_lo: "(2::rat) ^ (bp - 1) \<le> of_nat P"
    unfolding bp_def using P(1) by (intro pow2_le_of_nat bit_length_lower)
  have q_up: "(of_nat Q :: rat) < 2 ^ bq"
    unfolding bq_def by (intro of_nat_less_pow2 bit_length_upper)
  have q_lo: "(2::rat) ^ (bq - 1) \<le> of_nat Q"
    unfolding bq_def using Q(1) by (intro pow2_le_of_nat bit_length_lower)
  have qpos: "(0::rat) < of_nat Q" using Q by simp
  have aq: "a * of_nat Q = of_nat P" using a qpos P Q by simp
  have upper: "a < 2 powi (d + 1)"
  proof -
    have e1: "int bp = (d + 1) + int (bq - 1)" unfolding d_def using bq0 by linarith
    have "(2::rat) ^ nat (int bp) = 2 powi (d + 1) * 2 ^ (bq - 1)"
      by (rule powi_split [OF _ e1]) simp
    then have "(2::rat) ^ bp = 2 powi (d + 1) * 2 ^ (bq - 1)" by (simp only: nat_int)
    also have "\<dots> \<le> 2 powi (d + 1) * of_nat Q"
      using q_lo by (intro mult_left_mono) simp_all
    finally have "a * of_nat Q < 2 powi (d + 1) * of_nat Q" using p_up aq by linarith
    then show ?thesis using qpos by simp
  qed
  have lower: "2 powi (d - 1) < a"
  proof -
    have "(2::rat) powi (d - 1) * of_nat Q < 2 powi (d - 1) * 2 ^ bq"
      using q_up by (intro mult_strict_left_mono) simp_all
    also have "\<dots> = 2 ^ (bp - 1)"
    proof -
      have e2: "int (bp - 1) = (d - 1) + int bq" unfolding d_def using bp0 by linarith
      have "(2::rat) ^ nat (int (bp - 1)) = 2 powi (d - 1) * 2 ^ bq"
        by (rule powi_split [OF _ e2]) simp
      then show ?thesis by (simp only: nat_int)
    qed
    finally have "2 powi (d - 1) * of_nat Q < a * of_nat Q" using p_lo aq by linarith
    then show ?thesis using qpos by simp
  qed
  have fl2: "floor_log2 a = (if 2 powi d \<le> a then d else d - 1)"
    by (simp add: floor_log2_def pq d_def bp_def bq_def P_def Q_def Let_def)
  show ?thesis
  proof (cases "2 powi d \<le> a")
    case True
    then show ?thesis using upper fl2 by simp
  next
    case False
    then show ?thesis using lower fl2 by simp
  qed
qed

lemma powi_less_imp_less: "(2::rat) powi i < 2 powi j \<Longrightarrow> i < j"
proof (rule ccontr)
  assume h: "(2::rat) powi i < 2 powi j" and "\<not> i < j"
  then have "j \<le> i" by simp
  then have "(2::rat) powi j \<le> 2 powi i" by (intro power_int_increasing) simp_all
  then show False using h by simp
qed

lemma floor_log2_unique:
  assumes "0 < a" and "2 powi l \<le> a" and "a < 2 powi (l + 1)"
  shows "floor_log2 a = l"
proof -
  let ?m = "floor_log2 a"
  have b: "2 powi ?m \<le> a" "a < 2 powi (?m + 1)"
    using floor_log2_bounds [OF assms(1)] by simp_all
  have "(2::rat) powi l < 2 powi (?m + 1)" using assms(2) b(2) by linarith
  then have "l < ?m + 1" by (rule powi_less_imp_less)
  moreover have "(2::rat) powi ?m < 2 powi (l + 1)" using assms(3) b(1) by linarith
  then have "?m < l + 1" by (rule powi_less_imp_less)
  ultimately show ?thesis by linarith
qed

lemma fl_0 [simp]: "fl 0 = 0"
  by (simp add: fl_def)

lemma fl_eq:
  assumes "x \<noteq> 0" and "2 powi l \<le> \<bar>x\<bar>" and "\<bar>x\<bar> < 2 powi (l + 1)"
  shows "fl x = sgn x * (of_int (round_half_even (\<bar>x\<bar> / 2 powi (l - 52))) * 2 powi (l - 52))"
proof -
  have "floor_log2 \<bar>x\<bar> = l"
    using assms by (intro floor_log2_unique) simp_all
  then show ?thesis using assms(1) by (simp add: fl_def Let_def)
qed

lemma fl_minus: "fl (- x) = - fl x"
  by (simp add: fl_def Let_def)

lemma fl_error: "\<bar>fl x - x\<bar> \<le> \<bar>x\<bar> / 2 ^ 53"
proof (cases "x = 0")
  case True
  then show ?thesis by simp
next
  case False
  define l where "l = floor_log2 \<bar>x\<bar>"
  define e where "e = l - 52"
  define t where "t = \<bar>x\<bar> / 2 powi e"
  define m where "m = round_half_even t"
  have pe: "(0::rat) < 2 powi e" by simp
  have b: "2 powi l \<le> \<bar>x\<bar>"
    using floor_log2_bounds [of "\<bar>x\<bar>"] False by (simp add: l_def)
  have flx: "fl x = sgn x * (of_int m * 2 powi e)"
    using False by (simp add: fl_def Let_def m_def t_def e_def l_def)
  have x: "x = sgn x * (t * 2 powi e)"
    using pe by (simp add: t_def mult_sgn_abs)
  have "fl x - x = sgn x * ((of_int m - t) * 2 powi e)"
    by (subst x, subst flx) (simp add: algebra_simps)
  then have "\<bar>fl x - x\<bar> = \<bar>of_int m - t\<bar> * 2 powi e"
    using False pe by (simp add: abs_mult abs_sgn_eq)
  also have "\<dots> \<le> 1 / 2 * 2 powi e"
    using round_half_even_error [of t] pe unfolding m_def by (intro mult_right_mono) simp_all
  also have "(2::rat) powi e = 2 powi l / 2 ^ 52"
    unfolding e_def using power_int_diff [of "2::rat" l 52] by simp
  also have "1 / 2 * (2 powi l / 2 ^ 52) \<le> 1 / 2 * (\<bar>x\<bar> / 2 ^ 52)"
    using b by (intro mult_left_mono divide_right_mono) simp_all
  finally show ?thesis by simp
qed

lemma fl_representable:
  assumes "\<bar>k\<bar> < 2 ^ 53"
  shows "fl (of_int k * 2 powi j) = of_int k * 2 powi j"
proof (cases "k = 0")
  case True
  then show ?thesis by simp
next
  case False
  define x :: rat where "x = of_int k * 2 powi j"
  define l where "l = floor_log2 \<bar>x\<bar>"
  have x0: "x \<noteq> 0" using False by (simp add: x_def)
  have ax: "\<bar>x\<bar> = of_int \<bar>k\<bar> * 2 powi j" by (simp add: x_def abs_mult)
  have b: "2 powi l \<le> \<bar>x\<bar>"
    using floor_log2_bounds [of "\<bar>x\<bar>"] x0 by (simp add: l_def)
  have "(of_int \<bar>k\<bar> :: rat) < of_int (2 ^ 53)"
    using assms by (simp only: of_int_less_iff)
  then have k53: "(of_int \<bar>k\<bar> :: rat) < 2 ^ 53" by simp
  have "\<bar>x\<bar> < 2 ^ 53 * 2 powi j"
    unfolding ax using k53 by (intro mult_strict_right_mono) simp_all
  also have "\<dots> = 2 powi (53 + j)"
    using power_int_add [of "2::rat" 53 j] by simp
  finally have "(2::rat) powi l < 2 powi (53 + j)" using b by linarith
  then have lj: "l < 53 + j" by (rule powi_less_imp_less)
  define d where "d = nat (j - (l - 52))"
  have d: "j = int d + (l - 52)" using lj by (simp add: d_def)
  have "(2::rat) powi (int d + (l - 52)) = 2 powi int d * 2 powi (l - 52)"
    by (rule power_int_add) simp
  then have pj: "(2::rat) powi j = 2 ^ d * 2 powi (l - 52)"
    by (simp only: d [symmetric] power_int_of_nat)
  have pe: "(2::rat) powi (l - 52) \<noteq> 0" by simp
  have t: "\<bar>x\<bar> / 2 powi (l - 52) = of_int (\<bar>k\<bar> * 2 ^ d)"
    unfolding ax pj using pe by simp
  have "fl x = sgn x * (of_int (round_half_even (\<bar>x\<bar> / 2 powi (l - 52))) * 2 powi (l - 52))"
    using x0 by (simp add: fl_def Let_def l_def)
  also have "\<dots> = sgn x * (of_int (\<bar>k\<bar> * 2 ^ d) * 2 powi (l - 52))"
    by (simp only: t round_half_even_int)
  also have "of_int (\<bar>k\<bar> * 2 ^ d) * 2 powi (l - 52) = \<bar>x\<bar>"
    unfolding ax pj by simp
  also have "sgn x * \<bar>x\<bar> = x" by (simp add: mult_sgn_abs)
  finally show ?thesis by (simp only: x_def)
qed

lemma fl_of_int: "\<bar>k\<bar> < 2 ^ 53 \<Longrightarrow> fl (of_int k) = of_int k"
  using fl_representable [of k 0] by simp

lemma fl_numeral [simp]:
  "numeral n < (9007199254740992::int) \<Longrightarrow> fl (numeral n) = numeral n"
  using fl_of_int [of "numeral n"] by simp

lemma fl_1 [simp]: "fl 1 = 1"
  using fl_of_int [of 1] by simp

lemma fl_neg_numeral [simp]:
  "numeral n < (9007199254740992::int) \<Longrightarrow> fl (- numeral n) = - numeral n"
  by (simp add: fl_minus)

lemma fl_of_nat_small: "n < 2 ^ 53 \<Longrightarrow> fl (of_nat n) = of_nat n"
proof -
  assume "n < 2 ^ 53"
  then have "int n < int (2 ^ 53)" by (simp only: of_nat_less_iff)
  then have "\<bar>int n\<bar> < 2 ^ 53" by simp
  then show ?thesis using fl_of_int [of "int n"] by simp
qed

lemma fl_of_nat: "fl (of_nat n) = of_nat (to_double n)"
proof (cases "n < 2 ^ 53")
  case True
  then show ?thesis by (simp add: fl_of_nat_small to_double_def)
next
  case False
  then have big: "2 ^ 53 \<le> n" by simp
  then have n0: "0 < n" by (metis less_le_trans zero_less_numeral zero_less_power)
  define E where "E = bit_length n - 53"
  define q where "q = n div 2 ^ E"
  define r where "r = n mod 2 ^ E"
  have "(2::nat) ^ 53 < 2 ^ bit_length n" using big bit_length_upper [of n] by linarith
  then have bl: "53 < bit_length n" by (simp only: power_strict_increasing_iff)
  then have E1: "1 \<le> E" by (simp add: E_def)
  have lo: "2 powi (int (bit_length n) - 1) \<le> \<bar>(of_nat n :: rat)\<bar>"
  proof -
    have "(2::rat) ^ (bit_length n - 1) \<le> of_nat n"
      using n0 by (intro pow2_le_of_nat bit_length_lower)
    moreover have "int (bit_length n) - 1 = int (bit_length n - 1)" using bl by simp
    ultimately show ?thesis by (simp only: power_int_of_nat abs_of_nat)
  qed
  have up: "\<bar>(of_nat n :: rat)\<bar> < 2 powi (int (bit_length n) - 1 + 1)"
    using of_nat_less_pow2 [OF bit_length_upper [of n]] by simp
  have e: "int (bit_length n) - 1 - 52 = int E" using bl by (simp add: E_def)
  have nz: "(of_nat n :: rat) \<noteq> 0" using n0 by simp
  have flx: "fl (of_nat n) = of_int (round_half_even (of_nat n / 2 ^ E)) * 2 ^ E"
    using fl_eq [OF nz lo up] n0 by (simp only: e power_int_of_nat abs_of_nat) simp
  have n_eq: "(of_nat n :: rat) = of_nat q * 2 ^ E + of_nat r"
  proof -
    have "n = q * 2 ^ E + r" unfolding q_def r_def by (rule div_mult_mod_eq [symmetric])
    then have "(of_nat n :: rat) = of_nat (q * 2 ^ E + r)" by simp
    then show ?thesis by simp
  qed
  have r_lt: "(of_nat r :: rat) < 2 ^ E"
    by (intro of_nat_less_pow2) (simp add: r_def)
  have t: "(of_nat n :: rat) / 2 ^ E = of_nat q + of_nat r / 2 ^ E"
    by (simp add: n_eq add_divide_distrib)
  have frac: "0 \<le> (of_nat r :: rat) / 2 ^ E" "(of_nat r :: rat) / 2 ^ E < 1"
    using r_lt by simp_all
  have fl_t: "\<lfloor>(of_nat n :: rat) / 2 ^ E\<rfloor> = int q"
    unfolding t using frac by (simp add: floor_unique)
  have rem: "(of_nat n :: rat) / 2 ^ E - of_int (int q) = of_nat r / 2 ^ E"
    by (simp add: t)
  have pE: "(2::rat) ^ E = 2 * 2 ^ (E - 1)" using E1 by (cases E) simp_all
  have half_lt: "(of_nat r :: rat) / 2 ^ E < 1 / 2 \<longleftrightarrow> r < 2 ^ (E - 1)"
  proof -
    have "(of_nat r :: rat) / 2 ^ E < 1 / 2 \<longleftrightarrow> (of_nat r :: rat) < 2 ^ (E - 1)"
      unfolding pE by (simp add: field_simps)
    also have "\<dots> \<longleftrightarrow> (of_nat r :: rat) < of_nat (2 ^ (E - 1))" by simp
    also have "\<dots> \<longleftrightarrow> r < 2 ^ (E - 1)" by (simp only: of_nat_less_iff)
    finally show ?thesis .
  qed
  have half_eq: "(of_nat r :: rat) / 2 ^ E = 1 / 2 \<longleftrightarrow> r = 2 ^ (E - 1)"
  proof -
    have "(of_nat r :: rat) / 2 ^ E = 1 / 2 \<longleftrightarrow> (of_nat r :: rat) = 2 ^ (E - 1)"
      unfolding pE by (auto simp add: field_simps)
    also have "\<dots> \<longleftrightarrow> (of_nat r :: rat) = of_nat (2 ^ (E - 1))" by simp
    also have "\<dots> \<longleftrightarrow> r = 2 ^ (E - 1)" by (simp only: of_nat_eq_iff)
    finally show ?thesis .
  qed
  have rhe: "round_half_even (of_nat n / 2 ^ E) =
      int (if r < 2 ^ (E - 1) \<or> (r = 2 ^ (E - 1) \<and> even q) then q else q + 1)"
    unfolding round_half_even_def Let_def fl_t rem half_lt half_eq by auto
  have td: "to_double n =
      (if r < 2 ^ (E - 1) \<or> (r = 2 ^ (E - 1) \<and> even q) then q else q + 1) * 2 ^ E"
    using False by (simp add: to_double_def Let_def E_def q_def r_def)
  show ?thesis
    by (simp only: flx rhe td of_int_of_nat_eq of_nat_mult of_nat_power of_nat_numeral)
qed

lemma round_half_even_eq: "\<bar>of_int m - t\<bar> < 1 / 2 \<Longrightarrow> round_half_even t = m"
proof -
  assume h: "\<bar>of_int m - t\<bar> < 1 / 2"
  have f: "of_int \<lfloor>t\<rfloor> \<le> t" "t < of_int \<lfloor>t\<rfloor> + 1" by linarith+
  have "\<lfloor>t\<rfloor> = m \<or> \<lfloor>t\<rfloor> = m - 1"
  proof -
    have "of_int m - 1 < t" "t < of_int m + 1" using h by linarith+
    then have "m - 1 \<le> \<lfloor>t\<rfloor>" "\<lfloor>t\<rfloor> < m + 1"
      by (simp_all only: le_floor_iff floor_less_iff of_int_diff of_int_add of_int_1)
    then show ?thesis by linarith
  qed
  then show ?thesis
  proof
    assume e: "\<lfloor>t\<rfloor> = m"
    then have "t - of_int \<lfloor>t\<rfloor> < 1 / 2" using h by linarith
    then show ?thesis using e by (simp add: round_half_even_def Let_def)
  next
    assume e: "\<lfloor>t\<rfloor> = m - 1"
    then have "1 / 2 < t - of_int \<lfloor>t\<rfloor>" using h by (simp only: of_int_diff of_int_1)
    then show ?thesis using e by (simp add: round_half_even_def Let_def)
  qed
qed

lemma round_half_up_eq: "of_int m - 1 / 2 \<le> t \<Longrightarrow> t < of_int m + 1 / 2 \<Longrightarrow> round_half_up t = m"
  unfolding round_half_up_def by (rule floor_unique) simp_all

lemma round_half_up_of_int [simp]: "round_half_up (of_int k) = k"
  by (rule round_half_up_eq) simp_all

lemma round_half_up_numeral [simp]: "round_half_up (numeral n) = numeral n"
  using round_half_up_of_int [of "numeral n"] by simp

lemma round_half_up_0 [simp]: "round_half_up 0 = 0"
  using round_half_up_of_int [of 0] by simp

lemma round_half_up_1 [simp]: "round_half_up 1 = 1"
  using round_half_up_of_int [of 1] by simp

lemma round_half_up_error: "\<bar>of_int (round_half_up t) - t\<bar> \<le> 1 / 2"
proof -
  have "of_int \<lfloor>t + 1 / 2\<rfloor> \<le> t + 1 / 2" "t + 1 / 2 < of_int \<lfloor>t + 1 / 2\<rfloor> + 1" by linarith+
  then show ?thesis unfolding round_half_up_def by linarith
qed

lemma fl_dyadic: "\<bar>k\<bar> < 2 ^ 53 \<Longrightarrow> fl (of_int k / 2 ^ j) = of_int k / 2 ^ j"
  using fl_representable [of k "- int j"] by (simp add: power_int_minus field_simps)

lemma fl_upper: "0 \<le> x \<Longrightarrow> fl x \<le> x * (1 + 1 / 2 ^ 53)"
proof -
  assume "0 \<le> x"
  then have "\<bar>fl x - x\<bar> \<le> x / 9007199254740992" using fl_error [of x] by simp
  moreover have "x * (1 + 1 / 2 ^ 53) = x + x / 9007199254740992" by (simp add: algebra_simps)
  ultimately show ?thesis by linarith
qed

lemma fl_lower: "0 \<le> x \<Longrightarrow> x * (1 - 1 / 2 ^ 53) \<le> fl x"
proof -
  assume "0 \<le> x"
  then have "\<bar>fl x - x\<bar> \<le> x / 9007199254740992" using fl_error [of x] by simp
  moreover have "x * (1 - 1 / 2 ^ 53) = x - x / 9007199254740992" by (simp add: algebra_simps)
  ultimately show ?thesis by linarith
qed

lemma fl_nonneg: "0 \<le> x \<Longrightarrow> 0 \<le> fl x"
proof -
  assume x: "0 \<le> x"
  have "0 \<le> x * (1 - 1 / 2 ^ 53)" using x by (intro mult_nonneg_nonneg) simp_all
  then show ?thesis using fl_lower [OF x] by linarith
qed

lemma fl_near: "0 \<le> x \<Longrightarrow> x * (999 / 1000) \<le> fl x \<and> fl x \<le> x * (1001 / 1000)"
proof -
  assume x: "0 \<le> x"
  have "x * (999 / 1000) \<le> x * (1 - 1 / 2 ^ 53)"
    using x by (intro mult_left_mono) simp_all
  moreover have "x * (1 + 1 / 2 ^ 53) \<le> x * (1001 / 1000)"
    using x by (intro mult_left_mono) simp_all
  ultimately show ?thesis using fl_lower [OF x] fl_upper [OF x] by linarith
qed

lemma fl_abs: "\<bar>fl x\<bar> = fl \<bar>x\<bar>"
proof (cases "0 \<le> x")
  case True
  then show ?thesis using fl_nonneg [of x] by simp
next
  case False
  then have "0 \<le> - x" by simp
  then have "0 \<le> fl (- x)" by (rule fl_nonneg)
  then show ?thesis using False by (simp add: fl_minus)
qed

section \<open>Sorting, grouping and the reference computation\<close>

lemma mset_insert_by: "mset (insert_by cmp x xs) = add_mset x (mset xs)"
  by (induction xs) auto

lemma mset_array_sort: "mset (array_sort cmp xs) = mset xs"
  by (induction xs) (auto simp: array_sort_def mset_insert_by)

lemma first_keys_snoc:
  "first_keys (ks @ [k]) = (if k \<in> set ks then first_keys ks else first_keys ks @ [k])"
  by (simp add: first_keys_def)

lemma set_first_keys [simp]: "set (first_keys ks) = set ks"
  by (simp add: first_keys_def)

lemma distinct_first_keys [simp]: "distinct (first_keys ks)"
  by (simp add: first_keys_def)

lemma add_to_group_old:
  "k \<in> set ks \<Longrightarrow> distinct ks \<Longrightarrow>
   add_to_group k x (map (\<lambda>k'. (k', g k')) ks) =
     map (\<lambda>k'. (k', if k' = k then g k' @ [x] else g k')) ks"
  by (induction ks) auto

lemma add_to_group_new:
  "k \<notin> set ks \<Longrightarrow>
   add_to_group k x (map (\<lambda>k'. (k', g k')) ks) = map (\<lambda>k'. (k', g k')) ks @ [(k, [x])]"
  by (induction ks) auto

lemma Object_groupBy_snoc:
  "Object_groupBy (xs @ [x]) f = add_to_group (f x) x (Object_groupBy xs f)"
  by (simp add: Object_groupBy_def)

lemma Object_groupBy_eq:
  "Object_groupBy xs f =
     map (\<lambda>k. (k, filter (\<lambda>x. f x = k) xs)) (first_keys (map f xs))"
proof (induction xs rule: rev_induct)
  case Nil
  show ?case by (simp add: Object_groupBy_def first_keys_def)
next
  case (snoc x xs)
  show ?case
  proof (cases "f x \<in> set (map f xs)")
    case True
    then have "f x \<in> set (first_keys (map f xs))" by simp
    then show ?thesis
      using True by (simp add: Object_groupBy_snoc snoc first_keys_snoc add_to_group_old)
  next
    case False
    then have new: "f x \<notin> set (first_keys (map f xs))" by simp
    have empty: "filter (\<lambda>y. f y = f x) xs = []"
    proof -
      have "\<And>y. y \<in> set xs \<Longrightarrow> f y \<noteq> f x"
        using False by (metis image_eqI set_map)
      then show ?thesis by (simp add: filter_empty_conv)
    qed
    have other: "\<And>k. k \<in> set (first_keys (map f xs)) \<Longrightarrow> f x \<noteq> k"
      using new by auto
    show ?thesis
      using False other
      by (simp add: Object_groupBy_snoc snoc first_keys_snoc add_to_group_new [OF new] empty)
  qed
qed

lemma set_OwnPropertyKeys [simp]: "set (OwnPropertyKeys ks) = set ks"
  by (auto simp: OwnPropertyKeys_def)

lemma mset_OwnPropertyKeys [simp]: "mset (OwnPropertyKeys ks) = mset ks"
  by (simp add: OwnPropertyKeys_def)

lemma distinct_OwnPropertyKeys [simp]: "distinct (OwnPropertyKeys ks) = distinct ks"
  by (metis mset_OwnPropertyKeys mset_eq_imp_distinct_iff)

lemma Object_entries_eq:
  assumes "distinct ks"
  shows "Object_entries (map (\<lambda>k. (k, g k)) ks) = map (\<lambda>k. (k, g k)) (OwnPropertyKeys ks)"
proof -
  have "map_of (map (\<lambda>k. (k, g k)) ks) k = Some (g k)" if "k \<in> set ks" for k
    using that by (induction ks) auto
  then show ?thesis
    by (simp add: Object_entries_def comp_def)
qed

lemma set_insert_by [simp]: "set (insert_by cmp x xs) = insert x (set xs)"
  by (induction xs) auto

lemma set_array_sort [simp]: "set (array_sort cmp xs) = set xs"
  by (induction xs) (auto simp: array_sort_def)

lemma length_array_sort [simp]: "length (array_sort cmp xs) = length xs"
  by (metis mset_array_sort size_mset)

lemma array_sort_Cons: "array_sort cmp (x # xs) = insert_by cmp x (array_sort cmp xs)"
  by (simp add: array_sort_def)

lemma ascending_insert_by:
  assumes "total_preorder cmp" and "ascending cmp xs"
  shows "ascending cmp (insert_by cmp x xs)"
  using assms(2)
proof (induction xs)
  case Nil
  show ?case by simp
next
  case (Cons y ys)
  have tot: "\<And>a b. cmp a b \<le> 0 \<or> cmp b a \<le> 0"
    and trans: "\<And>a b c. cmp a b \<le> 0 \<Longrightarrow> cmp b c \<le> 0 \<Longrightarrow> cmp a c \<le> 0"
    using assms(1) unfolding total_preorder_def by blast+
  show ?case
  proof (cases "cmp x y \<le> 0")
    case True
    then have "\<forall>z \<in> set ys. cmp x z \<le> 0"
      using Cons.prems trans by auto
    then show ?thesis using True Cons.prems by simp
  next
    case False
    then have "cmp y x \<le> 0" using tot by blast
    then show ?thesis using False Cons by auto
  qed
qed

lemma ascending_array_sort:
  "total_preorder cmp \<Longrightarrow> ascending cmp (array_sort cmp xs)"
  by (induction xs) (simp_all add: array_sort_def ascending_insert_by)

lemma array_sort_ascending: "ascending cmp xs \<Longrightarrow> array_sort cmp xs = xs"
proof (induction xs)
  case Nil
  show ?case by (simp add: array_sort_def)
next
  case (Cons x xs)
  then have "array_sort cmp xs = xs" by simp
  then show ?case using Cons.prems by (cases xs) (simp_all add: array_sort_Cons)
qed

lemma ascending_unique:
  assumes "ascending cmp xs" and "ascending cmp ys" and "mset xs = mset ys"
    and "\<And>a b. a \<in> set xs \<Longrightarrow> b \<in> set xs \<Longrightarrow> cmp a b \<le> 0 \<Longrightarrow> cmp b a \<le> 0 \<Longrightarrow> a = b"
  shows "xs = ys"
  using assms
proof (induction xs arbitrary: ys)
  case Nil
  then show ?case by simp
next
  case (Cons x xs)
  then obtain y ys' where ys: "ys = y # ys'" by (cases ys) auto
  have sets: "set (x # xs) = set ys" using Cons.prems(3) by (metis mset_eq_setD)
  have "x = y"
  proof (rule ccontr)
    assume ne: "x \<noteq> y"
    then have "x \<in> set ys'" using sets ys by auto
    then have yx: "cmp y x \<le> 0" using Cons.prems(2) ys by auto
    have "y \<in> set xs" using sets ys ne by auto
    then have xy: "cmp x y \<le> 0" using Cons.prems(1) by auto
    have "y \<in> set (x # xs)" using sets ys by auto
    then show False using Cons.prems(4) [of x y] xy yx ne by auto
  qed
  moreover have "xs = ys'"
  proof (rule Cons.IH)
    show "ascending cmp xs" using Cons.prems(1) by simp
    show "ascending cmp ys'" using Cons.prems(2) ys by simp
    show "mset xs = mset ys'" using Cons.prems(3) ys \<open>x = y\<close> by simp
    show "\<And>a b. a \<in> set xs \<Longrightarrow> b \<in> set xs \<Longrightarrow> cmp a b \<le> 0 \<Longrightarrow> cmp b a \<le> 0 \<Longrightarrow> a = b"
      using Cons.prems(4) by auto
  qed
  ultimately show ?case using ys by simp
qed

lemma total_preorder_by_id: "total_preorder lc \<Longrightarrow> total_preorder (by_id lc)"
  unfolding total_preorder_def by_id_def by blast

lemma array_sort_permutation:
  assumes "total_preorder cmp" and "mset xs = mset ys"
    and "\<And>a b. a \<in> set xs \<Longrightarrow> b \<in> set xs \<Longrightarrow> cmp a b \<le> 0 \<Longrightarrow> cmp b a \<le> 0 \<Longrightarrow> a = b"
  shows "array_sort cmp xs = array_sort cmp ys"
proof (rule ascending_unique)
  show "ascending cmp (array_sort cmp xs)" "ascending cmp (array_sort cmp ys)"
    using assms(1) by (rule ascending_array_sort)+
  show "mset (array_sort cmp xs) = mset (array_sort cmp ys)"
    using assms(2) by (simp add: mset_array_sort)
  show "\<And>a b. a \<in> set (array_sort cmp xs) \<Longrightarrow> b \<in> set (array_sort cmp xs) \<Longrightarrow>
      cmp a b \<le> 0 \<Longrightarrow> cmp b a \<le> 0 \<Longrightarrow> a = b"
    using assms(3) by simp
qed

lemma mean_duration_spec: "mean_duration grp = spec_mean (map duration grp)"
  by (simp add: mean_duration_def spec_mean_def foldl_map)

lemma foldl_js_add:
  "foldl js_add (Num a) (map (\<lambda>d. Num (of_int d)) ds) = Num (foldl (\<lambda>a d. fl (a + of_int d)) a ds)"
  by (induction ds arbitrary: a) simp_all

lemma round2_spec_mean: "ds \<noteq> [] \<Longrightarrow> round2 (spec_mean ds) = Num (spec_avg ds)"
  by (simp add: spec_mean_def spec_avg_def spec_sum_def foldl_js_add round2_def Let_def)

lemma computeCorrectAnswer_keys:
  "computeCorrectAnswer lc events =
     spec_compute lc
       (OwnPropertyKeys (first_keys (map userId (filter (\<lambda>e. \<not> duration e < 50) events)))) events"
proof -
  define kept where "kept = filter (\<lambda>e. \<not> duration e < 50) events"
  define ks where "ks = first_keys (map userId kept)"
  have kept': "filter (\<lambda>e. 50 \<le> duration e) events = kept"
    by (simp add: kept_def not_less)
  have "distinct ks" by (simp add: ks_def)
  then have entries: "Object_entries (Object_groupBy kept userId) =
      map (\<lambda>k. (k, filter (\<lambda>e. userId e = k) kept)) (OwnPropertyKeys ks)"
    by (simp add: Object_groupBy_eq ks_def [symmetric] Object_entries_eq)
  have "filter (\<lambda>e. userId e = k) kept \<noteq> []" if "k \<in> set (OwnPropertyKeys ks)" for k
  proof -
    from that have "k \<in> userId ` set kept" by (simp add: ks_def)
    then show ?thesis by (auto simp: filter_empty_conv)
  qed
  then have "map (\<lambda>k. \<lparr>id_ua = k, avg = round2 (mean_duration (filter (\<lambda>e. userId e = k) kept))\<rparr>)
        (OwnPropertyKeys ks)
      = map (\<lambda>u. \<lparr>id_ua = u, avg = Num (spec_avg (map duration (filter (\<lambda>e. userId e = u) kept)))\<rparr>)
        (OwnPropertyKeys ks)"
    by (intro map_cong refl) (simp add: mean_duration_spec round2_spec_mean)
  moreover have "computeCorrectAnswer lc events = array_sort (by_id lc)
      (map (\<lambda>k. \<lparr>id_ua = k, avg = round2 (mean_duration (filter (\<lambda>e. userId e = k) kept))\<rparr>)
        (OwnPropertyKeys ks))"
    by (simp add: computeCorrectAnswer_def kept' Let_def entries comp_def)
  moreover have "spec_compute lc (OwnPropertyKeys ks) events = array_sort (by_id lc)
      (map (\<lambda>u. \<lparr>id_ua = u, avg = Num (spec_avg (map duration (filter (\<lambda>e. userId e = u) kept)))\<rparr>)
        (OwnPropertyKeys ks))"
    by (simp add: spec_compute_def kept_def)
  ultimately have "computeCorrectAnswer lc events = spec_compute lc (OwnPropertyKeys ks) events"
    by (simp only:)
  then show ?thesis unfolding ks_def kept_def .
qed

lemma spec_compute_order:
  assumes "total_preorder lc" and "antisymmetric lc" and "mset ids = mset ids'"
  shows "spec_compute lc ids events = spec_compute lc ids' events"
proof -
  define G where "G = (\<lambda>u. \<lparr>id_ua = u, avg = Num (spec_avg (map duration
      (filter (\<lambda>e. userId e = u) (filter (\<lambda>e. \<not> duration e < 50) events))))\<rparr>)"
  have "array_sort (by_id lc) (map G ids) = array_sort (by_id lc) (map G ids')"
  proof (rule array_sort_permutation)
    show "total_preorder (by_id lc)" using assms(1) by (rule total_preorder_by_id)
    show "mset (map G ids) = mset (map G ids')" using assms(3) by simp
    fix a b
    assume "a \<in> set (map G ids)" "b \<in> set (map G ids)"
      and "by_id lc a b \<le> 0" "by_id lc b a \<le> 0"
    moreover from this have "id_ua a = id_ua b"
      using assms(2) unfolding antisymmetric_def by_id_def by blast
    ultimately show "a = b" by (auto simp: G_def)
  qed
  then show ?thesis by (simp add: spec_compute_def G_def Let_def)
qed

lemma code_unit_compare_total: "code_unit_compare a b \<le> 0 \<or> code_unit_compare b a \<le> 0"
  by (induction a b rule: code_unit_compare.induct) auto

lemma code_unit_compare_Cons:
  "code_unit_compare (x # xs) (y # ys) \<le> 0 \<longleftrightarrow>
     (of_char x :: nat) < of_char y \<or> ((of_char x :: nat) = of_char y \<and> code_unit_compare xs ys \<le> 0)"
  by auto

lemma code_unit_compare_trans:
  "code_unit_compare a b \<le> 0 \<Longrightarrow> code_unit_compare b c \<le> 0 \<Longrightarrow> code_unit_compare a c \<le> 0"
proof (induction a arbitrary: b c)
  case Nil
  then show ?case by (cases c) simp_all
next
  case (Cons x xs)
  from Cons.prems(1) obtain y ys where b: "b = y # ys" by (cases b) simp_all
  from Cons.prems(2) b obtain z zs where c: "c = z # zs" by (cases c) simp_all
  have xy: "(of_char x :: nat) < of_char y \<or>
      ((of_char x :: nat) = of_char y \<and> code_unit_compare xs ys \<le> 0)"
    using Cons.prems(1) unfolding b code_unit_compare_Cons .
  have yz: "(of_char y :: nat) < of_char z \<or>
      ((of_char y :: nat) = of_char z \<and> code_unit_compare ys zs \<le> 0)"
    using Cons.prems(2) unfolding b c code_unit_compare_Cons .
  have "(of_char x :: nat) < of_char z \<or>
      ((of_char x :: nat) = of_char z \<and> code_unit_compare xs zs \<le> 0)"
    using xy yz Cons.IH [of ys zs] by (metis less_trans)
  then show ?case unfolding c code_unit_compare_Cons .
qed

lemma code_unit_compare_antisym:
  "code_unit_compare a b \<le> 0 \<Longrightarrow> code_unit_compare b a \<le> 0 \<Longrightarrow> a = b"
proof (induction a b rule: code_unit_compare.induct)
  case (4 x xs y ys)
  then have "(of_char x :: nat) = of_char y" by (auto split: if_splits)
  then have "x = y" by simp
  then show ?case using 4 by (auto split: if_splits)
qed auto

lemma total_preorder_code_unit_compare: "total_preorder code_unit_compare"
  unfolding total_preorder_def
  using code_unit_compare_total code_unit_compare_trans by blast

lemma antisymmetric_code_unit_compare: "antisymmetric code_unit_compare"
  unfolding antisymmetric_def using code_unit_compare_antisym by blast

lemma normalize_processEvents: "normalize lc (processEvents events) = computeCorrectAnswer lc events"
  by (simp add: normalize_def processEvents_def computeCorrectAnswer_def Let_def comp_def
      case_prod_unfold)

lemma processEvents_keys:
  "processEvents events =
     map (\<lambda>u. \<lparr>id_ua = u, avg = spec_mean (map duration
            (filter (\<lambda>e. userId e = u) (filter (\<lambda>e. \<not> duration e < 50) events)))\<rparr>)
       (OwnPropertyKeys (first_keys (map userId (filter (\<lambda>e. \<not> duration e < 50) events))))"
proof -
  define kept where "kept = filter (\<lambda>e. \<not> duration e < 50) events"
  define ks where "ks = first_keys (map userId kept)"
  have kept': "filter (\<lambda>e. 50 \<le> duration e) events = kept"
    by (simp add: kept_def not_less)
  have "distinct ks" by (simp add: ks_def)
  then have entries: "Object_entries (Object_groupBy kept userId) =
      map (\<lambda>k. (k, filter (\<lambda>e. userId e = k) kept)) (OwnPropertyKeys ks)"
    by (simp add: Object_groupBy_eq ks_def [symmetric] Object_entries_eq)
  show ?thesis
    by (simp add: processEvents_def kept' Let_def kept_def [symmetric] ks_def [symmetric]
        entries comp_def mean_duration_spec)
qed

text \<open>Evaluation: averages that binary64 holds exactly.\<close>

lemma fl_half_numeral [simp]:
  "numeral n < (9007199254740992::int) \<Longrightarrow> fl (numeral n / 2) = numeral n / 2"
  using fl_dyadic [of "numeral n" 1] by simp

lemma round2_70: "round2 (Num 70) = Num 70"
  by (simp add: round2_def)

lemma spec_sum_from:
  "0 \<le> a \<Longrightarrow> \<forall>d \<in> set ds. 0 \<le> d \<Longrightarrow> a + sum_list ds < 2 ^ 53 \<Longrightarrow>
     foldl (\<lambda>a d. fl (a + of_int d)) (of_int a) ds = of_int (a + sum_list ds)"
proof (induction ds arbitrary: a)
  case Nil
  show ?case by simp
next
  case (Cons d ds)
  have d: "0 \<le> d" and ds: "\<forall>x \<in> set ds. 0 \<le> x" using Cons.prems(2) by simp_all
  have "0 \<le> sum_list ds" using ds by (simp add: sum_list_nonneg)
  then have "\<bar>a + d\<bar> < 2 ^ 53" using Cons.prems(1,3) d by simp
  then have "fl (of_int (a + d)) = of_int (a + d)" by (rule fl_of_int)
  then have "foldl (\<lambda>a d. fl (a + of_int d)) (of_int a) (d # ds)
      = foldl (\<lambda>a d. fl (a + of_int d)) (of_int (a + d)) ds"
    by simp
  also have "\<dots> = of_int (a + d + sum_list ds)"
    using Cons.prems d ds by (intro Cons.IH) simp_all
  finally show ?case by (simp add: add.assoc)
qed

lemma spec_sum_exact:
  "\<forall>d \<in> set ds. 0 \<le> d \<Longrightarrow> sum_list ds < 2 ^ 53 \<Longrightarrow> spec_sum ds = of_int (sum_list ds)"
  using spec_sum_from [of 0 ds] by (simp add: spec_sum_def)

lemma singleton_keys: "distinct ks \<Longrightarrow> set ks = {u} \<Longrightarrow> ks = [u]"
proof (cases ks)
  case Nil
  assume "set ks = {u}"
  then show ?thesis using Nil by simp
next
  case (Cons k ks')
  assume d: "distinct ks" and s: "set ks = {u}"
  have "k = u" using s Cons by auto
  moreover have "ks' = []"
  proof (cases ks')
    case (Cons k' ks'')
    then have "k' \<in> set ks" using \<open>ks = k # ks'\<close> by simp
    then have "k' = u" using s by simp
    then show ?thesis using d \<open>ks = k # ks'\<close> Cons \<open>k = u\<close> by simp
  qed simp
  ultimately show ?thesis using Cons by simp
qed

lemma OwnPropertyKeys_single: "OwnPropertyKeys [u] = [u]"
  by (simp add: OwnPropertyKeys_def)

lemma computeCorrectAnswer_one_user:
  assumes "events \<noteq> []" and "\<forall>e \<in> set events. userId e = u \<and> 50 \<le> duration e"
  shows "computeCorrectAnswer lc events = [\<lparr>id_ua = u, avg = Num (spec_avg (map duration events))\<rparr>]"
proof -
  have kept: "filter (\<lambda>e. \<not> duration e < 50) events = events"
    using assms(2) by (simp add: filter_id_conv not_less)
  have mine: "filter (\<lambda>e. userId e = u) events = events"
    using assms(2) by (simp add: filter_id_conv)
  have "set (first_keys (map userId events)) = {u}"
    using assms by (cases events) auto
  then have "first_keys (map userId events) = [u]"
    by (intro singleton_keys) simp_all
  then have "computeCorrectAnswer lc events = spec_compute lc [u] events"
    by (simp add: computeCorrectAnswer_keys kept OwnPropertyKeys_single)
  then show ?thesis
    by (simp add: spec_compute_def kept mine array_sort_def)
qed

lemma spec_avg_eighths: "spec_avg (replicate 7 50 @ [51]) = fl (5013 / 100)"
proof -
  have s: "spec_sum (replicate 7 50 @ [51]) = of_int (sum_list (replicate 7 50 @ [51]))"
    by (rule spec_sum_exact) (simp_all add: sum_list_replicate)
  have m: "fl (401 / 8) = 401 / 8" using fl_dyadic [of 401 3] by simp
  have f: "round_half_up (10025 / 2) = 5013" by (rule round_half_up_eq) simp_all
  show ?thesis
    by (simp add: spec_avg_def s sum_list_replicate m f)
qed

lemma fl_2569_40: "fl (2569 / 40) = 4519432594810470 / 2 ^ 46"
proof -
  have "round_half_even (\<bar>2569 / 40\<bar> / 2 powi (6 - 52)) = 4519432594810470"
    by (rule round_half_even_eq) (simp add: power_int_minus)
  moreover have "fl (2569 / 40) = sgn (2569 / 40 :: rat) *
      (of_int (round_half_even (\<bar>2569 / 40\<bar> / 2 powi (6 - 52))) * 2 powi (6 - 52))"
    by (rule fl_eq) (simp_all add: power_int_minus)
  ultimately show ?thesis by (simp add: power_int_minus)
qed

lemma fl_2569_40_100: "fl (4519432594810470 / 2 ^ 46 * 100) = 7061613429391359 / 2 ^ 40"
proof -
  have "round_half_even (\<bar>4519432594810470 / 2 ^ 46 * 100\<bar> / 2 powi (12 - 52)) = 7061613429391359"
    by (rule round_half_even_eq) (simp add: power_int_minus)
  moreover have "fl (4519432594810470 / 2 ^ 46 * 100) = sgn (4519432594810470 / 2 ^ 46 * 100 :: rat) *
      (of_int (round_half_even (\<bar>4519432594810470 / 2 ^ 46 * 100\<bar> / 2 powi (12 - 52))) * 2 powi (12 - 52))"
    by (rule fl_eq) (simp_all add: power_int_minus)
  ultimately show ?thesis by (simp add: power_int_minus)
qed

lemma spec_avg_2569_40: "spec_avg (replicate 39 64 @ [73]) = fl (6422 / 100)"
proof -
  have s: "spec_sum (replicate 39 64 @ [73]) = of_int (sum_list (replicate 39 64 @ [73]))"
    by (rule spec_sum_exact) (simp_all add: sum_list_replicate)
  have v: "spec_sum (replicate 39 64 @ [73]) / of_nat (length (replicate 39 64 @ [73 :: int]))
      = 2569 / 40"
    unfolding s by (simp add: sum_list_replicate)
  have f: "round_half_up (7061613429391359 / 2 ^ 40) = 6422" by (rule round_half_up_eq) simp_all
  have "spec_avg (replicate 39 64 @ [73])
      = fl (of_int (round_half_up (fl (fl (2569 / 40) * 100))) / 100)"
    unfolding spec_avg_def Let_def v ..
  also have "\<dots> = fl (6422 / 100)"
    unfolding fl_2569_40 fl_2569_40_100 f by simp
  finally show ?thesis .
qed

lemma exact_avg_2569_40: "exact_avg (replicate 39 64 @ [73]) = 6423 / 100"
proof -
  have "round_half_up (12845 / 2) = 6423" by (rule round_half_up_eq) simp_all
  then show ?thesis by (simp add: exact_avg_def sum_list_replicate)
qed

lemma fl_6422_below: "fl (6422 / 100) < 2569 / 40"
proof -
  have "fl (6422 / 100) \<le> (6422 / 100) * (1 + 1 / 2 ^ 53)" by (rule fl_upper) simp
  moreover have "(6422 / 100) * (1 + 1 / 2 ^ 53) < (2569::rat) / 40" by simp
  ultimately show ?thesis by linarith
qed

lemma fl_6423_above: "2569 / 40 < fl (6423 / 100)"
proof -
  have "(6423 / 100) * (1 - 1 / 2 ^ 53) \<le> fl (6423 / 100)" by (rule fl_lower) simp
  moreover have "(2569::rat) / 40 < (6423 / 100) * (1 - 1 / 2 ^ 53)" by simp
  ultimately show ?thesis by linarith
qed

lemma fl_5013_above: "401 / 8 < fl (5013 / 100)"
proof -
  have "(5013 / 100) * (1 - 1 / 2 ^ 53) \<le> fl (5013 / 100)" by (rule fl_lower) simp
  moreover have "(401::rat) / 8 < (5013 / 100) * (1 - 1 / 2 ^ 53)" by simp
  ultimately show ?thesis by linarith
qed

lemma spec_mean_50_51: "spec_mean [50, 51] = Num (101 / 2)"
  by (simp add: spec_mean_def)

lemma round2_half: "round2 (Num (101 / 2)) = Num (101 / 2)"
  by (simp add: round2_def)

lemma round2_60: "round2 (Num 60) = Num 60"
  by (simp add: round2_def)

lemma processEvents_unsorted:
  "processEvents
     [\<lparr>userId = ''b'', duration = 60\<rparr>, \<lparr>userId = ''a'', duration = 50\<rparr>,
      \<lparr>userId = ''a'', duration = 51\<rparr>]
   = [\<lparr>id_ua = ''b'', avg = Num 60\<rparr>, \<lparr>id_ua = ''a'', avg = Num (101 / 2)\<rparr>]"
  by (simp add: processEvents_def Object_groupBy_def Object_entries_def
        OwnPropertyKeys_def array_index_def is_digit_def mean_duration_def)

lemma computeCorrectAnswer_sorted:
  "computeCorrectAnswer code_unit_compare
     [\<lparr>userId = ''b'', duration = 60\<rparr>, \<lparr>userId = ''a'', duration = 50\<rparr>,
      \<lparr>userId = ''a'', duration = 51\<rparr>]
   = [\<lparr>id_ua = ''a'', avg = Num (101 / 2)\<rparr>, \<lparr>id_ua = ''b'', avg = Num 60\<rparr>]"
  by (simp add: computeCorrectAnswer_def Object_groupBy_def Object_entries_def
        OwnPropertyKeys_def array_index_def is_digit_def mean_duration_def array_sort_def
        by_id_def round2_def)

lemma fl_eighths: "fl (401 / 8) = 401 / 8"
  using fl_dyadic [of 401 3] by simp

lemma processEvents_unrounded:
  "processEvents
     [\<lparr>userId = ''u'', duration = 50\<rparr>, \<lparr>userId = ''u'', duration = 50\<rparr>,
      \<lparr>userId = ''u'', duration = 50\<rparr>, \<lparr>userId = ''u'', duration = 50\<rparr>,
      \<lparr>userId = ''u'', duration = 50\<rparr>, \<lparr>userId = ''u'', duration = 50\<rparr>,
      \<lparr>userId = ''u'', duration = 50\<rparr>, \<lparr>userId = ''u'', duration = 51\<rparr>]
   = [\<lparr>id_ua = ''u'', avg = Num (401 / 8)\<rparr>]"
  by (simp add: processEvents_def Object_groupBy_def Object_entries_def
        OwnPropertyKeys_def array_index_def is_digit_def mean_duration_def fl_eighths)

lemma round2_eighths: "round2 (Num (401 / 8)) = Num (fl (5013 / 100))"
proof -
  have "round_half_up (10025 / 2) = 5013"
    by (rule round_half_up_eq) simp_all
  then show ?thesis by (simp add: round2_def)
qed

lemma fl_5013: "fl (5013 / 100) \<noteq> 401 / 8"
proof -
  have "(5013 / 100) * (1 - 1 / 2 ^ 53) \<le> fl (5013 / 100)"
    by (rule fl_lower) simp
  moreover have "(401::rat) / 8 < (5013 / 100) * (1 - 1 / 2 ^ 53)" by simp
  ultimately show ?thesis by linarith
qed

section \<open>The seeded generator\<close>

lemma to_double_small: "n < 2 ^ 53 \<Longrightarrow> to_double n = n"
  by (simp add: to_double_def)

lemma to_double_large:
  assumes "2 ^ 53 \<le> n"
  shows "even (to_double n) \<and> 2 ^ 53 \<le> to_double n"
proof -
  define e where "e = bit_length n - 53"
  define q where "q = n div 2 ^ e"
  define m where "m = (if n mod 2 ^ e < 2 ^ (e - 1) \<or> (n mod 2 ^ e = 2 ^ (e - 1) \<and> even q) then q else q + 1)"
  have td: "to_double n = m * 2 ^ e"
    using assms by (simp add: to_double_def Let_def e_def q_def m_def)
  have "(2::nat) ^ 53 < 2 ^ bit_length n"
    using assms bit_length_upper [of n] by linarith
  then have bl: "53 < bit_length n" by (simp only: power_strict_increasing_iff)
  then have e1: "1 \<le> e" by (simp add: e_def)
  have even: "even (m * 2 ^ e)" using e1 by simp
  have "0 < n" using assms by (metis less_le_trans zero_less_numeral zero_less_power)
  then have "2 ^ (bit_length n - 1) \<le> n" by (rule bit_length_lower)
  moreover have "bit_length n - 1 = 52 + e" using bl by (simp add: e_def)
  ultimately have "2 ^ 52 * 2 ^ e \<le> n" by (simp add: power_add)
  then have "2 ^ 52 \<le> q" unfolding q_def by (simp add: less_eq_div_iff_mult_less_eq)
  then have "2 ^ 52 \<le> m" by (simp add: m_def)
  moreover have "(2::nat) \<le> 2 ^ e" using e1 by (metis power_increasing one_le_numeral power_one_right)
  ultimately have "(2::nat) ^ 52 * 2 \<le> m * 2 ^ e" by (rule mult_le_mono)
  then show ?thesis using even td by simp
qed

lemma ToInt32_and: "unat ((word_of_nat v :: 32 word) AND 0x7fffffff) = v mod 2 ^ 31"
proof -
  have "(0x7fffffff :: 32 word) = mask 31" by (simp add: mask_eq_exp_minus_1)
  then have "unat ((word_of_nat v :: 32 word) AND 0x7fffffff) = unat (take_bit 31 (word_of_nat v :: 32 word))"
    by (simp add: take_bit_eq_mask)
  also have "\<dots> = take_bit 31 (take_bit 32 v)"
    by (simp add: unsigned_take_bit_eq unsigned_of_nat)
  also have "\<dots> = take_bit 31 v" by simp
  also have "\<dots> = v mod 2 ^ 31" by (rule take_bit_eq_mod)
  finally show ?thesis .
qed

lemma lcg_next_mod: "lcg_next c = to_double (to_double (c * 1103515245) + 12345) mod 2 ^ 31"
proof -
  have "(of_nat c :: rat) * 1103515245 = of_nat (c * 1103515245)" by simp
  then have "fl (of_nat c * 1103515245) = of_nat (to_double (c * 1103515245))"
    by (simp only: fl_of_nat)
  then have "fl (of_nat c * 1103515245) + 12345 = of_nat (to_double (c * 1103515245) + 12345)"
    by simp
  then have "fl (fl (of_nat c * 1103515245) + 12345)
      = of_nat (to_double (to_double (c * 1103515245) + 12345))"
    by (simp only: fl_of_nat)
  then have "\<lfloor>fl (fl (of_nat c * 1103515245) + 12345)\<rfloor>
      = int (to_double (to_double (c * 1103515245) + 12345))"
    by simp
  then show ?thesis
    by (simp only: lcg_next_def word_of_int_nat ToInt32_and) simp
qed

lemma even_mod_ne: "even v \<Longrightarrow> v mod 2 ^ 31 \<noteq> (2147483647::nat)"
proof
  assume "even v" and h: "v mod 2 ^ 31 = (2147483647::nat)"
  have "even (v mod 2 ^ 31)" using \<open>even v\<close> by (simp add: dvd_mod_iff)
  then show False using h by simp
qed

lemma no_preimage:
  assumes "c * 1103515245 < (2::nat) ^ 53"
  shows "(c * 1103515245 + 12345) mod 2 ^ 31 \<noteq> (2147483647::nat)"
proof
  assume h: "(c * 1103515245 + 12345) mod 2 ^ 31 = (2147483647::nat)"
  have c: "c < 8162279" using assms by simp
  have "((c * 1103515245 + 12345) * 1857678181) mod 2 ^ 31 = (2147483647 * 1857678181) mod (2 ^ 31 :: nat)"
    using h by (metis mod_mult_left_eq)
  moreover have "(c * 1103515245 + 12345) * 1857678181 = c + 22933037144445 + (c * 954594553) * 2 ^ 31"
    by (simp add: algebra_simps)
  ultimately have "(c + 22933037144445) mod 2 ^ 31 = (2147483647 * 1857678181) mod (2 ^ 31 :: nat)"
    by (simp only: mod_mult_self1)
  then have "(c + 22933037144445) mod 2147483648 = (289805467::nat)" by simp
  moreover have "c + 22933037144445 = c + 59267453 + 10679 * 2147483648" by simp
  ultimately have "(c + 59267453) mod 2147483648 = (289805467::nat)"
    by (simp only: mod_mult_self1)
  moreover have "(c + 59267453) mod 2147483648 = c + 59267453"
    using c by (intro mod_less) simp
  ultimately show False using c by simp
qed

lemma lcg_next_never_max: "lcg_next c \<noteq> 2147483647"
proof (cases "c * 1103515245 < 2 ^ 53")
  case True
  then have t: "to_double (c * 1103515245) = c * 1103515245" by (rule to_double_small)
  show ?thesis
  proof (cases "c * 1103515245 + 12345 < 2 ^ 53")
    case True
    then show ?thesis
      using no_preimage [OF \<open>c * 1103515245 < 2 ^ 53\<close>]
      by (simp only: lcg_next_mod t to_double_small [OF True] not_False_eq_True)
  next
    case False
    then have "even (to_double (c * 1103515245 + 12345))"
      using to_double_large by (simp add: not_less)
    then show ?thesis by (simp only: lcg_next_mod t even_mod_ne not_False_eq_True)
  qed
next
  case False
  then have "2 ^ 53 \<le> to_double (c * 1103515245)"
    using to_double_large by (simp add: not_less)
  then have "2 ^ 53 \<le> to_double (c * 1103515245) + 12345" by linarith
  then have "even (to_double (to_double (c * 1103515245) + 12345))"
    using to_double_large by blast
  then show ?thesis by (simp only: lcg_next_mod even_mod_ne not_False_eq_True)
qed

lemma lcg_next_bound: "lcg_next c < 2147483647"
proof -
  have "lcg_next c < 2 ^ 31" by (simp add: lcg_next_mod)
  then show ?thesis using lcg_next_never_max [of c] by simp
qed

lemma bit_length_eq:
  assumes "2 ^ k \<le> n" and "n < 2 ^ Suc k"
  shows "bit_length n = Suc k"
proof -
  have pos: "0 < n" using assms(1) by (metis less_le_trans zero_less_numeral zero_less_power)
  have "(2::nat) ^ k < 2 ^ bit_length n"
    using assms(1) bit_length_upper [of n] by linarith
  then have lo: "k < bit_length n" by (simp only: power_strict_increasing_iff)
  have "(2::nat) ^ (bit_length n - 1) < 2 ^ Suc k"
    using bit_length_lower [OF pos] assms(2) by linarith
  then have "bit_length n - 1 < Suc k" by (simp only: power_strict_increasing_iff)
  then show ?thesis using lo by linarith
qed

lemma lcg_next_seed: "lcg_next 12345 = 1406932606"
  by (simp add: lcg_next_mod to_double_def)

lemma lcg_next_second: "lcg_next 1406932606 = 654583808"
proof -
  have b1: "bit_length 1552571579408578470 = 61"
    by (rule bit_length_eq [of 60, simplified]) simp_all
  have t1: "to_double 1552571579408578470 = 1552571579408578560"
    by (simp add: to_double_def b1)
  have b2: "bit_length 1552571579408590905 = 61"
    by (rule bit_length_eq [of 60, simplified]) simp_all
  have t2: "to_double 1552571579408590905 = 1552571579408590848"
    by (simp add: to_double_def b2)
  show ?thesis
    by (simp add: lcg_next_mod t1 t2)
qed

lemma funpow_double_Suc: "(f ^^ (2 * Suc k)) x = (f ^^ (2 * k)) (f (f x))"
  by (simp add: funpow_swap1)

lemma generateEvents_loop_eq:
  "generateEvents_loop i cnt c evs =
     evs @ map (\<lambda>k. draw_event ((lcg_next ^^ (2 * k)) c)) [0..<cnt - i]"
proof (induction i cnt c evs rule: generateEvents_loop.induct)
  case (1 i cnt c evs)
  show ?case
  proof (cases "i < cnt")
    case False
    then show ?thesis by (subst generateEvents_loop.simps) simp
  next
    case True
    then obtain m where m: "cnt - i = Suc m" by (metis Suc_diff_Suc)
    then have m': "cnt - (i + 1) = m" by simp
    have upt: "[0..<Suc m] = 0 # map Suc [0..<m]"
      by (simp only: upt_conv_Cons [of 0 "Suc m"] map_Suc_upt)
    have "generateEvents_loop i cnt c evs =
        generateEvents_loop (i + 1) cnt (lcg_next (lcg_next c)) (evs @ [draw_event c])"
      using True by (subst generateEvents_loop.simps) (simp add: Let_def draw_event_def)
    also have "\<dots> = (evs @ [draw_event c]) @
        map (\<lambda>k. draw_event ((lcg_next ^^ (2 * k)) (lcg_next (lcg_next c)))) [0..<cnt - (i + 1)]"
      using 1 [OF True refl refl] by (simp add: draw_event_def)
    also have "\<dots> = evs @ map (\<lambda>k. draw_event ((lcg_next ^^ (2 * k)) c)) [0..<Suc m]"
      by (simp only: m' upt list.map map_map comp_def funpow_double_Suc) simp
    finally show ?thesis by (simp only: m)
  qed
qed

lemma generateEvents_eq: "generateEvents cnt = map event_at [0..<cnt]"
  by (simp add: generateEvents_def generateEvents_loop_eq event_at_def)

lemma floor_fl_mult:
  assumes "0 \<le> x" and "0 \<le> n"
    and "of_int k \<le> x * n * (999 / 1000) * (999 / 1000)"
    and "x * n * (1001 / 1000) * (1001 / 1000) < of_int k + 1"
  shows "\<lfloor>fl (fl x * n)\<rfloor> = k"
proof (rule floor_unique)
  define p where "p = x * n"
  define q where "q = fl x * n"
  have r: "x * (999 / 1000) \<le> fl x" "fl x \<le> x * (1001 / 1000)" "0 \<le> fl x"
    using fl_near [OF assms(1)] fl_nonneg [OF assms(1)] by simp_all
  have q0: "0 \<le> q" unfolding q_def using r(3) assms(2) by simp
  have v: "q * (999 / 1000) \<le> fl q" "fl q \<le> q * (1001 / 1000)"
    using fl_near [OF q0] by simp_all
  have "x * (999 / 1000) * n \<le> fl x * n" using r(1) assms(2) by (rule mult_right_mono)
  moreover have "x * (999 / 1000) * n = p * (999 / 1000)" by (simp add: p_def)
  ultimately have lo: "p * (999 / 1000) \<le> q" by (simp only: q_def)
  have "fl x * n \<le> x * (1001 / 1000) * n" using r(2) assms(2) by (rule mult_right_mono)
  moreover have "x * (1001 / 1000) * n = p * (1001 / 1000)" by (simp add: p_def)
  ultimately have hi: "q \<le> p * (1001 / 1000)" by (simp only: q_def)
  have a3: "of_int k \<le> p * (999 / 1000) * (999 / 1000)" using assms(3) by (simp only: p_def)
  have a4: "p * (1001 / 1000) * (1001 / 1000) < of_int k + 1" using assms(4) by (simp only: p_def)
  show "of_int k \<le> fl (fl x * n)" unfolding q_def [symmetric] using a3 lo v(1) by linarith
  show "fl (fl x * n) < of_int k + 1" unfolding q_def [symmetric] using a4 hi v(2) by linarith
qed

lemma event_at_0: "event_at 0 = \<lparr>userId = ''user33'', duration = 68\<rparr>"
proof -
  have u: "show_int 33 = ''33''" by code_simp
  have f1: "\<lfloor>fl (fl (1406932606 / 2147483647) * 50)\<rfloor> = 32"
    by (rule floor_fl_mult) simp_all
  have f2: "\<lfloor>fl (fl (654583808 / 2147483647) * 191)\<rfloor> = 58"
    by (rule floor_fl_mult) simp_all
  show ?thesis
    by (simp add: event_at_def draw_event_def lcg_next_seed lcg_next_second random_value_def
        NUM_USERS_def MAX_DURATION_def MIN_DURATION_def f1 f2 u)
qed

lemma floor_fl_bound:
  assumes "0 \<le> r" and "r \<le> B" and "0 < n" and "B * of_int n * (1 + 1 / 2 ^ 53) < of_int n"
  shows "0 \<le> \<lfloor>fl (r * of_int n)\<rfloor> \<and> \<lfloor>fl (r * of_int n)\<rfloor> < n"
proof
  have rn: "0 \<le> r * of_int n" using assms(1,3) by simp
  then have "0 \<le> fl (r * of_int n)" by (rule fl_nonneg)
  then show "0 \<le> \<lfloor>fl (r * of_int n)\<rfloor>" by simp
  have "fl (r * of_int n) \<le> r * of_int n * (1 + 1 / 2 ^ 53)" using rn by (rule fl_upper)
  also have "\<dots> \<le> B * of_int n * (1 + 1 / 2 ^ 53)"
    using assms(2,3) by (intro mult_right_mono) simp_all
  finally have "fl (r * of_int n) < of_int n" using assms(4) by linarith
  then show "\<lfloor>fl (r * of_int n)\<rfloor> < n" by (simp add: floor_less_iff)
qed

lemma random_value_range:
  assumes "c < 2147483647"
  shows "0 \<le> random_value c \<and> random_value c \<le> 2147483646 / 2147483647 * (1 + 1 / 2 ^ 53)"
proof
  have nn: "(0::rat) \<le> of_nat c / 2147483647" by simp
  then show "0 \<le> random_value c" unfolding random_value_def by (rule fl_nonneg)
  have "c \<le> 2147483646" using assms by simp
  then have "(of_nat c :: rat) \<le> of_nat 2147483646" by (simp only: of_nat_le_iff)
  then have le: "(of_nat c :: rat) / 2147483647 \<le> 2147483646 / 2147483647" by simp
  have "random_value c \<le> of_nat c / 2147483647 * (1 + 1 / 2 ^ 53)"
    unfolding random_value_def using fl_upper [OF nn] by simp
  also have "\<dots> \<le> 2147483646 / 2147483647 * (1 + 1 / 2 ^ 53)"
    using le by (intro mult_right_mono) simp_all
  finally show "random_value c \<le> 2147483646 / 2147483647 * (1 + 1 / 2 ^ 53)" .
qed

lemma in_range:
  assumes "0 \<le> r1" "r1 \<le> B" "0 \<le> r2" "r2 \<le> B" and "B * (1 + 1 / 2 ^ 53) < 1"
  shows "(\<exists>k. 1 \<le> k \<and> k \<le> 50 \<and>
            ''user'' @ show_int (\<lfloor>fl (r1 * of_int NUM_USERS)\<rfloor> + 1) = ''user'' @ show_int k)
       \<and> 10 \<le> \<lfloor>fl (r2 * of_int (MAX_DURATION - MIN_DURATION + 1))\<rfloor> + MIN_DURATION
       \<and> \<lfloor>fl (r2 * of_int (MAX_DURATION - MIN_DURATION + 1))\<rfloor> + MIN_DURATION \<le> 200"
proof -
  have s: "B * of_int n * (1 + 1 / 2 ^ 53) < of_int n" if "0 < n" for n :: int
  proof -
    have "B * (1 + 1 / 2 ^ 53) * of_int n < 1 * of_int n"
      using assms(5) that by (intro mult_strict_right_mono) simp_all
    moreover have "B * of_int n * (1 + 1 / 2 ^ 53) = B * (1 + 1 / 2 ^ 53) * of_int n"
      by (simp only: ac_simps)
    ultimately show ?thesis by (simp only: mult_1)
  qed
  have a: "0 \<le> \<lfloor>fl (r1 * of_int NUM_USERS)\<rfloor> \<and> \<lfloor>fl (r1 * of_int NUM_USERS)\<rfloor> < NUM_USERS"
  proof (rule floor_fl_bound [OF assms(1,2)])
    show "0 < NUM_USERS" by (simp add: NUM_USERS_def)
    then show "B * of_int NUM_USERS * (1 + 1 / 2 ^ 53) < of_int NUM_USERS" by (rule s)
  qed
  have b: "0 \<le> \<lfloor>fl (r2 * of_int (MAX_DURATION - MIN_DURATION + 1))\<rfloor>
      \<and> \<lfloor>fl (r2 * of_int (MAX_DURATION - MIN_DURATION + 1))\<rfloor> < MAX_DURATION - MIN_DURATION + 1"
  proof (rule floor_fl_bound [OF assms(3,4)])
    show "0 < MAX_DURATION - MIN_DURATION + 1" by (simp add: MAX_DURATION_def MIN_DURATION_def)
    then show "B * of_int (MAX_DURATION - MIN_DURATION + 1) * (1 + 1 / 2 ^ 53)
        < of_int (MAX_DURATION - MIN_DURATION + 1)" by (rule s)
  qed
  have "1 \<le> \<lfloor>fl (r1 * of_int NUM_USERS)\<rfloor> + 1 \<and> \<lfloor>fl (r1 * of_int NUM_USERS)\<rfloor> + 1 \<le> 50"
    using a by (simp add: NUM_USERS_def)
  then have "\<exists>k. 1 \<le> k \<and> k \<le> 50 \<and>
      ''user'' @ show_int (\<lfloor>fl (r1 * of_int NUM_USERS)\<rfloor> + 1) = ''user'' @ show_int k"
    by blast
  then show ?thesis using b by (simp add: MAX_DURATION_def MIN_DURATION_def)
qed

lemma event_at_range:
  "(\<exists>k. 1 \<le> k \<and> k \<le> 50 \<and> userId (event_at i) = ''user'' @ show_int k)
   \<and> 10 \<le> duration (event_at i) \<and> duration (event_at i) \<le> 200"
proof -
  let ?c = "(lcg_next ^^ (2 * i)) 12345"
  have "event_at i = draw_event ?c" by (simp add: event_at_def)
  moreover have "(2147483646 / 2147483647 * (1 + 1 / 2 ^ 53)) * (1 + 1 / 2 ^ 53) < (1::rat)"
    by simp
  ultimately show ?thesis
    using in_range [of "random_value (lcg_next ?c)" "2147483646 / 2147483647 * (1 + 1 / 2 ^ 53)"
        "random_value (lcg_next (lcg_next ?c))"]
      random_value_range [OF lcg_next_bound [of ?c]]
      random_value_range [OF lcg_next_bound [of "lcg_next ?c"]]
    by (simp add: draw_event_def)
qed

lemma reachable_bound: "(lcg_next ^^ n) 12345 < 2147483647"
  by (cases n) (simp_all add: lcg_next_bound)

section \<open>Scorer lemmas\<close>

lemma count_loop:
  "foldl (\<lambda>n e. (case find (\<lambda>a. id_ua a = id_ua e) acts of
                      None \<Rightarrow> n
                    | Some act \<Rightarrow> if within_tolerance act e then n + 1 else n)) n0 expected
   = n0 + length (filter (\<lambda>e. \<exists>act. find (\<lambda>a. id_ua a = id_ua e) acts = Some act
                                   \<and> within_tolerance act e) expected)"
  by (induction expected arbitrary: n0) (auto split: option.splits)

lemma correctCount_eq:
  "correctCount (compareResults expected (Some actual)) =
     length (filter (\<lambda>e. \<exists>act. find (\<lambda>a. id_ua a = id_ua e) actual = Some act
                            \<and> within_tolerance act e) expected)"
  by (simp add: compareResults_def Let_def count_loop)

lemma find_distinct:
  "distinct (map f xs) \<Longrightarrow> a \<in> set xs \<Longrightarrow> find (\<lambda>x. f x = f a) xs = Some a"
  by (induction xs) (auto simp: image_iff)

lemma find_in_set: "find P xs = Some a \<Longrightarrow> a \<in> set xs \<and> P a"
  by (induction xs) (auto split: if_splits)

lemma first_match_distinct:
  assumes "distinct (map id_ua actual)"
  shows "(\<exists>act. find (\<lambda>a. id_ua a = id_ua e) actual = Some act \<and> within_tolerance act e)
     \<longleftrightarrow> (\<exists>a \<in> set actual. id_ua a = id_ua e \<and> within_tolerance a e)"
proof
  assume "\<exists>act. find (\<lambda>a. id_ua a = id_ua e) actual = Some act \<and> within_tolerance act e"
  then show "\<exists>a \<in> set actual. id_ua a = id_ua e \<and> within_tolerance a e"
    using find_in_set by fastforce
next
  assume "\<exists>a \<in> set actual. id_ua a = id_ua e \<and> within_tolerance a e"
  then obtain a where a: "a \<in> set actual" "id_ua a = id_ua e" "within_tolerance a e" by blast
  have "find (\<lambda>x. id_ua x = id_ua a) actual = Some a"
    using assms a(1) by (rule find_distinct)
  then show "\<exists>act. find (\<lambda>a. id_ua a = id_ua e) actual = Some act \<and> within_tolerance act e"
    using a by simp
qed

lemma fl_one_half [simp]: "fl (1 / 2) = 1 / 2"
  using fl_dyadic [of 1 1] by simp

lemma tolerance_bounds: "9 / 100 < fl (1 / 10) \<and> fl (1 / 10) < 11 / 100"
  using fl_near [of "1 / 10"] by simp

lemma within_tolerance_Num:
  "within_tolerance \<lparr>id_ua = i, avg = Num x\<rparr> \<lparr>id_ua = j, avg = Num y\<rparr>
     \<longleftrightarrow> \<bar>fl (x - y)\<bar> < fl (1 / 10)"
  by (simp add: within_tolerance_def)

lemma within_tolerance_same: "avg a = Num x \<Longrightarrow> within_tolerance a a"
  using tolerance_bounds by (simp add: within_tolerance_def)

lemma tolerance_004:
  "within_tolerance \<lparr>id_ua = i, avg = Num (fl (1004 / 100))\<rparr> \<lparr>id_ua = j, avg = Num 10\<rparr>"
proof -
  have a: "1004 / 100 * (999 / 1000) \<le> fl (1004 / 100)" "fl (1004 / 100) \<le> 1004 / 100 * (1001 / 1000)"
    using fl_near [of "1004 / 100"] by simp_all
  then have d0: "0 \<le> fl (1004 / 100) - 10" by simp
  have "fl (fl (1004 / 100) - 10) \<le> (fl (1004 / 100) - 10) * (1001 / 1000)"
    using fl_near [OF d0] by simp
  moreover have "0 \<le> fl (fl (1004 / 100) - 10)" using d0 by (rule fl_nonneg)
  ultimately have "\<bar>fl (fl (1004 / 100) - 10)\<bar> < 9 / 100" using a by simp
  then show ?thesis using tolerance_bounds by (simp add: within_tolerance_Num)
qed

lemma tolerance_020:
  "\<not> within_tolerance \<lparr>id_ua = i, avg = Num (fl (1020 / 100))\<rparr> \<lparr>id_ua = j, avg = Num 10\<rparr>"
proof -
  have a: "1020 / 100 * (999 / 1000) \<le> fl (1020 / 100)"
    using fl_near [of "1020 / 100"] by simp
  then have d0: "0 \<le> fl (1020 / 100) - 10" by simp
  have "(fl (1020 / 100) - 10) * (999 / 1000) \<le> fl (fl (1020 / 100) - 10)"
    using fl_near [OF d0] by simp
  then have "11 / 100 < fl (fl (1020 / 100) - 10)" using a by simp
  then have "\<not> \<bar>fl (fl (1020 / 100) - 10)\<bar> < fl (1 / 10)" using tolerance_bounds by linarith
  then show ?thesis unfolding within_tolerance_Num .
qed

lemma percent_error:
  assumes "0 \<le> x" and "x \<le> 1"
  shows "\<bar>fl (fl x * 100) - 100 * x\<bar> \<le> 1 / 2 ^ 40"
proof -
  define q where "q = fl x * 100"
  have r: "x * (1 - 1 / 2 ^ 53) \<le> fl x" "fl x \<le> x * (1 + 1 / 2 ^ 53)" "0 \<le> fl x"
    using fl_lower [OF assms(1)] fl_upper [OF assms(1)] fl_nonneg [OF assms(1)] by simp_all
  have q0: "0 \<le> q" unfolding q_def using r(3) by simp
  have v: "q * (1 - 1 / 2 ^ 53) \<le> fl q" "fl q \<le> q * (1 + 1 / 2 ^ 53)"
    using fl_lower [OF q0] fl_upper [OF q0] by simp_all
  have lo: "100 * x * (1 - 1 / 2 ^ 53) \<le> q" and hi: "q \<le> 100 * x * (1 + 1 / 2 ^ 53)"
    unfolding q_def using r by simp_all
  have "100 * x - 1 / 2 ^ 40 \<le> fl q" using v(1) lo assms by simp
  moreover have "fl q \<le> 100 * x + 1 / 2 ^ 40" using v(2) hi assms by simp
  ultimately show ?thesis unfolding q_def by linarith
qed

lemma correctCount_le: "correctCount (compareResults expected (Some actual)) \<le> length expected"
  by (simp add: correctCount_eq)

lemma accuracy_eq:
  assumes "expected \<noteq> []"
  shows "accuracy (compareResults expected (Some actual)) =
     Num (of_int (round_half_up (fl (fl (of_nat (correctCount (compareResults expected (Some actual)))
                    / of_nat (length expected)) * 100))))"
  using assms by (simp add: compareResults_def Let_def)

lemma accuracy_near:
  assumes "expected \<noteq> []"
  shows "\<bar>of_int (round_half_up (fl (fl (of_nat (correctCount (compareResults expected (Some actual)))
                    / of_nat (length expected)) * 100)))
          - 100 * (of_nat (correctCount (compareResults expected (Some actual)))
                    / of_nat (length expected) :: rat)\<bar> \<le> 1 / 2 + 1 / 2 ^ 40"
proof -
  define x :: rat where "x = of_nat (correctCount (compareResults expected (Some actual)))
                    / of_nat (length expected)"
  have n: "(0::rat) < of_nat (length expected)" using assms by simp
  have "(of_nat (correctCount (compareResults expected (Some actual))) :: rat)
      \<le> of_nat (length expected)"
    using correctCount_le [of expected actual] by (simp only: of_nat_le_iff)
  then have x: "0 \<le> x" "x \<le> 1" using n by (simp_all add: x_def)
  have "\<bar>of_int (round_half_up (fl (fl x * 100))) - fl (fl x * 100)\<bar> \<le> 1 / 2"
    by (rule round_half_up_error)
  moreover have "\<bar>fl (fl x * 100) - 100 * x\<bar> \<le> 1 / 2 ^ 40"
    using x by (rule percent_error)
  ultimately show ?thesis unfolding x_def [symmetric] by linarith
qed

lemma spurious_extra:
  assumes "id_ua found = id_ua exa" and "within_tolerance found exa" and "id_ua exb \<noteq> id_ua exa"
    and "id_ua spur \<noteq> id_ua exa" and "id_ua spur \<noteq> id_ua exb"
  shows "compareResults [exa, exb] (Some [found, spur]) =
     \<lparr>match = False, correctCount = 1, totalCount = 2, accuracy = Num 50\<rparr>"
  using assms by (simp add: compareResults_def Let_def)

lemma fl_23_40: "fl (23 / 40) = 5179139571476070 / 2 ^ 53"
proof -
  have "round_half_even (\<bar>23 / 40\<bar> / 2 powi (- 1 - 52)) = 5179139571476070"
    by (rule round_half_even_eq) (simp add: power_int_minus)
  moreover have "fl (23 / 40) = sgn (23 / 40 :: rat) *
      (of_int (round_half_even (\<bar>23 / 40\<bar> / 2 powi (- 1 - 52))) * 2 powi (- 1 - 52))"
    by (rule fl_eq) (simp_all add: power_int_minus)
  ultimately show ?thesis by (simp add: power_int_minus)
qed

lemma fl_23_40_100: "fl (5179139571476070 / 2 ^ 53 * 100) = 8092405580431359 / 2 ^ 47"
proof -
  have "round_half_even (\<bar>5179139571476070 / 2 ^ 53 * 100\<bar> / 2 powi (5 - 52)) = 8092405580431359"
    by (rule round_half_even_eq) (simp add: power_int_minus)
  moreover have "fl (5179139571476070 / 2 ^ 53 * 100) = sgn (5179139571476070 / 2 ^ 53 * 100 :: rat) *
      (of_int (round_half_even (\<bar>5179139571476070 / 2 ^ 53 * 100\<bar> / 2 powi (5 - 52))) * 2 powi (5 - 52))"
    by (rule fl_eq) (simp_all add: power_int_minus)
  ultimately show ?thesis by (simp add: power_int_minus)
qed

lemma percent_23_40: "round_half_up (fl (fl (23 / 40) * 100)) = 57"
  unfolding fl_23_40 fl_23_40_100 by (rule round_half_up_eq) simp_all

lemma percent_23_40_exact: "Math_round (js_div (js_mul (Num 100) (Num 23)) (Num 40)) = Num 58"
proof -
  have "round_half_up (115 / 2) = 58" by (rule round_half_up_eq) simp_all
  then show ?thesis by simp
qed

lemma tolerance_pos: "0 < fl (1 / 10)"
  using tolerance_bounds by linarith

lemma tolerance_lt_1: "\<not> 1 < fl (1 / 10)" "\<not> 1 \<le> fl (1 / 10)"
  using tolerance_bounds by linarith+

lemma count_23_40:
  "correctCount (compareResults
       [\<lparr>id_ua = ''u01'', avg = Num 1\<rparr>, \<lparr>id_ua = ''u02'', avg = Num
        1\<rparr>, \<lparr>id_ua = ''u03'', avg = Num 1\<rparr>, \<lparr>id_ua = ''u04'', avg =
        Num 1\<rparr>, \<lparr>id_ua = ''u05'', avg = Num 1\<rparr>, \<lparr>id_ua = ''u06'',
        avg = Num 1\<rparr>, \<lparr>id_ua = ''u07'', avg = Num 1\<rparr>, \<lparr>id_ua =
        ''u08'', avg = Num 1\<rparr>, \<lparr>id_ua = ''u09'', avg = Num 1\<rparr>,
        \<lparr>id_ua = ''u10'', avg = Num 1\<rparr>, \<lparr>id_ua = ''u11'', avg = Num
        1\<rparr>, \<lparr>id_ua = ''u12'', avg = Num 1\<rparr>, \<lparr>id_ua = ''u13'', avg =
        Num 1\<rparr>, \<lparr>id_ua = ''u14'', avg = Num 1\<rparr>, \<lparr>id_ua = ''u15'',
        avg = Num 1\<rparr>, \<lparr>id_ua = ''u16'', avg = Num 1\<rparr>, \<lparr>id_ua =
        ''u17'', avg = Num 1\<rparr>, \<lparr>id_ua = ''u18'', avg = Num 1\<rparr>,
        \<lparr>id_ua = ''u19'', avg = Num 1\<rparr>, \<lparr>id_ua = ''u20'', avg = Num
        1\<rparr>, \<lparr>id_ua = ''u21'', avg = Num 1\<rparr>, \<lparr>id_ua = ''u22'', avg =
        Num 1\<rparr>, \<lparr>id_ua = ''u23'', avg = Num 1\<rparr>, \<lparr>id_ua = ''u24'',
        avg = Num 1\<rparr>, \<lparr>id_ua = ''u25'', avg = Num 1\<rparr>, \<lparr>id_ua =
        ''u26'', avg = Num 1\<rparr>, \<lparr>id_ua = ''u27'', avg = Num 1\<rparr>,
        \<lparr>id_ua = ''u28'', avg = Num 1\<rparr>, \<lparr>id_ua = ''u29'', avg = Num
        1\<rparr>, \<lparr>id_ua = ''u30'', avg = Num 1\<rparr>, \<lparr>id_ua = ''u31'', avg =
        Num 1\<rparr>, \<lparr>id_ua = ''u32'', avg = Num 1\<rparr>, \<lparr>id_ua = ''u33'',
        avg = Num 1\<rparr>, \<lparr>id_ua = ''u34'', avg = Num 1\<rparr>, \<lparr>id_ua =
        ''u35'', avg = Num 1\<rparr>, \<lparr>id_ua = ''u36'', avg = Num 1\<rparr>,
        \<lparr>id_ua = ''u37'', avg = Num 1\<rparr>, \<lparr>id_ua = ''u38'', avg = Num
        1\<rparr>, \<lparr>id_ua = ''u39'', avg = Num 1\<rparr>, \<lparr>id_ua = ''u40'', avg =
        Num 1\<rparr>]
       (Some (take 23
       [\<lparr>id_ua = ''u01'', avg = Num 1\<rparr>, \<lparr>id_ua = ''u02'', avg = Num
        1\<rparr>, \<lparr>id_ua = ''u03'', avg = Num 1\<rparr>, \<lparr>id_ua = ''u04'', avg =
        Num 1\<rparr>, \<lparr>id_ua = ''u05'', avg = Num 1\<rparr>, \<lparr>id_ua = ''u06'',
        avg = Num 1\<rparr>, \<lparr>id_ua = ''u07'', avg = Num 1\<rparr>, \<lparr>id_ua =
        ''u08'', avg = Num 1\<rparr>, \<lparr>id_ua = ''u09'', avg = Num 1\<rparr>,
        \<lparr>id_ua = ''u10'', avg = Num 1\<rparr>, \<lparr>id_ua = ''u11'', avg = Num
        1\<rparr>, \<lparr>id_ua = ''u12'', avg = Num 1\<rparr>, \<lparr>id_ua = ''u13'', avg =
        Num 1\<rparr>, \<lparr>id_ua = ''u14'', avg = Num 1\<rparr>, \<lparr>id_ua = ''u15'',
        avg = Num 1\<rparr>, \<lparr>id_ua = ''u16'', avg = Num 1\<rparr>, \<lparr>id_ua =
        ''u17'', avg = Num 1\<rparr>, \<lparr>id_ua = ''u18'', avg = Num 1\<rparr>,
        \<lparr>id_ua = ''u19'', avg = Num 1\<rparr>, \<lparr>id_ua = ''u20'', avg = Num
        1\<rparr>, \<lparr>id_ua = ''u21'', avg = Num 1\<rparr>, \<lparr>id_ua = ''u22'', avg =
        Num 1\<rparr>, \<lparr>id_ua = ''u23'', avg = Num 1\<rparr>, \<lparr>id_ua = ''u24'',
        avg = Num 1\<rparr>, \<lparr>id_ua = ''u25'', avg = Num 1\<rparr>, \<lparr>id_ua =
        ''u26'', avg = Num 1\<rparr>, \<lparr>id_ua = ''u27'', avg = Num 1\<rparr>,
        \<lparr>id_ua = ''u28'', avg = Num 1\<rparr>, \<lparr>id_ua = ''u29'', avg = Num
        1\<rparr>, \<lparr>id_ua = ''u30'', avg = Num 1\<rparr>, \<lparr>id_ua = ''u31'', avg =
        Num 1\<rparr>, \<lparr>id_ua = ''u32'', avg = Num 1\<rparr>, \<lparr>id_ua = ''u33'',
        avg = Num 1\<rparr>, \<lparr>id_ua = ''u34'', avg = Num 1\<rparr>, \<lparr>id_ua =
        ''u35'', avg = Num 1\<rparr>, \<lparr>id_ua = ''u36'', avg = Num 1\<rparr>,
        \<lparr>id_ua = ''u37'', avg = Num 1\<rparr>, \<lparr>id_ua = ''u38'', avg = Num
        1\<rparr>, \<lparr>id_ua = ''u39'', avg = Num 1\<rparr>, \<lparr>id_ua = ''u40'', avg =
        Num 1\<rparr>]))) = 23"
  by (simp add: compareResults_def within_tolerance_def tolerance_pos)

section \<open>Normalization lemmas\<close>

lemma map_insert_by:
  assumes "\<And>a b. cmp (f a) (f b) = cmp a b"
  shows "map f (insert_by cmp x xs) = insert_by cmp (f x) (map f xs)"
  by (induction xs) (simp_all add: assms)

lemma map_array_sort:
  assumes "\<And>a b. cmp (f a) (f b) = cmp a b"
  shows "map f (array_sort cmp xs) = array_sort cmp (map f xs)"
  by (induction xs) (simp_all add: array_sort_def map_insert_by [of cmp f, OF assms])

lemma round2_special:
  "round2 PosInf = PosInf" "round2 NegInf = NegInf" "round2 NaN = NaN"
  by (simp_all add: round2_def inf_of_sign_def)

lemma round2_Num:
  "round2 (Num x) = Num (fl (of_int (round_half_up (fl (x * 100))) / 100))"
  by (simp add: round2_def)

lemma round2_fixed:
  assumes "\<bar>of_int k\<bar> \<le> (2::rat) ^ 50"
  shows "round_half_up (fl (fl (of_int k / 100) * 100)) = k"
proof (rule round_half_up_eq)
  define K :: rat where "K = \<bar>of_int k\<bar>"
  define y where "y = fl (of_int k / 100)"
  have K: "0 \<le> K" "K \<le> 1125899906842624" using assms by (simp_all add: K_def)
  have "\<bar>y - of_int k / 100\<bar> \<le> \<bar>of_int k / 100\<bar> / 2 ^ 53"
    unfolding y_def by (rule fl_error)
  then have e1: "\<bar>y * 100 - of_int k\<bar> \<le> K / 9007199254740992"
    by (simp add: K_def abs_le_iff field_simps)
  have "\<bar>fl (y * 100) - y * 100\<bar> \<le> \<bar>y * 100\<bar> / 2 ^ 53" by (rule fl_error)
  then have e2: "\<bar>fl (y * 100) - y * 100\<bar> \<le> \<bar>y * 100\<bar> / 9007199254740992" by simp
  have y100: "\<bar>y * 100\<bar> \<le> K + K / 9007199254740992"
    using e1 unfolding K_def by linarith
  have "\<bar>fl (y * 100) - of_int k\<bar> < 1 / 2"
    using e1 e2 y100 K by linarith
  then show "of_int k - 1 / 2 \<le> fl (fl (of_int k / 100) * 100)"
    and "fl (fl (of_int k / 100) * 100) < of_int k + 1 / 2"
    unfolding y_def by linarith+
qed

lemma round_half_up_bound:
  assumes "\<bar>x\<bar> \<le> 2 ^ 43"
  shows "\<bar>of_int (round_half_up (fl (x * 100)))\<bar> \<le> (2::rat) ^ 50"
proof -
  have x: "\<bar>x * 100\<bar> \<le> 879609302220800" using assms by (simp add: abs_mult)
  have "\<bar>fl (x * 100) - x * 100\<bar> \<le> \<bar>x * 100\<bar> / 2 ^ 53" by (rule fl_error)
  then have e: "\<bar>fl (x * 100) - x * 100\<bar> \<le> \<bar>x * 100\<bar> / 9007199254740992" by simp
  have r: "\<bar>of_int (round_half_up (fl (x * 100))) - fl (x * 100)\<bar> \<le> 1 / 2"
    by (rule round_half_up_error)
  have "\<bar>of_int (round_half_up (fl (x * 100)))\<bar> \<le> (1125899906842624::rat)"
    using x e r by linarith
  then show ?thesis by simp
qed

lemma round2_idem:
  assumes "\<And>x. a = Num x \<Longrightarrow> \<bar>x\<bar> \<le> 2 ^ 43"
  shows "round2 (round2 a) = round2 a"
proof (cases a)
  case (Num x)
  then have "\<bar>x\<bar> \<le> 2 ^ 43" by (rule assms)
  then have "\<bar>of_int (round_half_up (fl (x * 100)))\<bar> \<le> (2::rat) ^ 50"
    by (rule round_half_up_bound)
  then have "round_half_up (fl (fl (of_int (round_half_up (fl (x * 100))) / 100) * 100))
      = round_half_up (fl (x * 100))"
    by (rule round2_fixed)
  then show ?thesis unfolding Num round2_Num by simp
qed (simp_all add: round2_special)

lemma normalize_twice:
  assumes "\<And>r x. r \<in> set rs \<Longrightarrow> avg r = Num x \<Longrightarrow> \<bar>x\<bar> \<le> 2 ^ 43"
  shows "normalize lc (normalize lc rs) = array_sort (by_id lc) (normalize lc rs)"
proof -
  let ?R = "\<lambda>r. \<lparr>id_ua = id_ua r, avg = round2 (avg r)\<rparr>"
  have "map ?R (array_sort (by_id lc) (map ?R rs)) = array_sort (by_id lc) (map ?R (map ?R rs))"
    by (rule map_array_sort) (simp add: by_id_def)
  also have "map ?R (map ?R rs) = map ?R rs"
    using assms by (simp add: round2_idem)
  finally show ?thesis
    by (simp add: normalize_def)
qed

lemma round2_large_1: "round2 (Num (2251799813685249 / 64)) = Num (4503599627370499 / 128)"
proof -
  have a: "fl (2251799813685249 / 64 * 100) = 7036874417766403 / 2"
  proof -
    have "round_half_even (\<bar>2251799813685249 / 64 * 100\<bar> / 2 powi (51 - 52)) = 7036874417766403"
      by (rule round_half_even_eq) (simp add: power_int_minus)
    moreover have "fl (2251799813685249 / 64 * 100) = sgn (2251799813685249 / 64 * 100 :: rat) *
        (of_int (round_half_even (\<bar>2251799813685249 / 64 * 100\<bar> / 2 powi (51 - 52))) * 2 powi (51 - 52))"
      by (rule fl_eq) (simp_all add: power_int_minus)
    ultimately show ?thesis by (simp add: power_int_minus)
  qed
  have b: "round_half_up (7036874417766403 / 2) = 3518437208883202"
    by (rule round_half_up_eq) simp_all
  have c: "fl (of_int 3518437208883202 / 100) = 4503599627370499 / 128"
  proof -
    have "round_half_even (\<bar>of_int 3518437208883202 / 100\<bar> / 2 powi (45 - 52)) = 4503599627370499"
      by (rule round_half_even_eq) (simp add: power_int_minus)
    moreover have "fl (of_int 3518437208883202 / 100) = sgn (of_int 3518437208883202 / 100 :: rat) *
        (of_int (round_half_even (\<bar>of_int 3518437208883202 / 100\<bar> / 2 powi (45 - 52))) * 2 powi (45 - 52))"
      by (rule fl_eq) (simp_all add: power_int_minus)
    ultimately show ?thesis by (simp add: power_int_minus)
  qed
  show ?thesis by (simp only: round2_Num a b c)
qed

lemma round2_large_2: "round2 (Num (4503599627370499 / 128)) = Num (4503599627370500 / 128)"
proof -
  have a: "fl (4503599627370499 / 128 * 100) = 7036874417766405 / 2"
  proof -
    have "round_half_even (\<bar>4503599627370499 / 128 * 100\<bar> / 2 powi (51 - 52)) = 7036874417766405"
      by (rule round_half_even_eq) (simp add: power_int_minus)
    moreover have "fl (4503599627370499 / 128 * 100) = sgn (4503599627370499 / 128 * 100 :: rat) *
        (of_int (round_half_even (\<bar>4503599627370499 / 128 * 100\<bar> / 2 powi (51 - 52))) * 2 powi (51 - 52))"
      by (rule fl_eq) (simp_all add: power_int_minus)
    ultimately show ?thesis by (simp add: power_int_minus)
  qed
  have b: "round_half_up (7036874417766405 / 2) = 3518437208883203"
    by (rule round_half_up_eq) simp_all
  have c: "fl (of_int 3518437208883203 / 100) = 4503599627370500 / 128"
  proof -
    have "round_half_even (\<bar>of_int 3518437208883203 / 100\<bar> / 2 powi (45 - 52)) = 4503599627370500"
      by (rule round_half_even_eq) (simp add: power_int_minus)
    moreover have "fl (of_int 3518437208883203 / 100) = sgn (of_int 3518437208883203 / 100 :: rat) *
        (of_int (round_half_even (\<bar>of_int 3518437208883203 / 100\<bar> / 2 powi (45 - 52))) * 2 powi (45 - 52))"
      by (rule fl_eq) (simp_all add: power_int_minus)
    ultimately show ?thesis by (simp add: power_int_minus)
  qed
  show ?thesis by (simp only: round2_Num a b c)
qed

lemma normalize_single: "normalize lc [r] = [\<lparr>id_ua = id_ua r, avg = round2 (avg r)\<rparr>]"
  by (simp add: normalize_def array_sort_def)

lemma round2_2: "round2 (Num 2) = Num 2"
  by (simp add: round2_def)

lemma round2_quarter: "round2 (Num (5 / 4)) = Num (5 / 4)"
proof -
  have "fl (5 / 4) = 5 / 4" using fl_dyadic [of 5 2] by simp
  then show ?thesis by (simp add: round2_def)
qed

lemma round2_eighth: "round2 (Num (9 / 8)) = Num (fl (113 / 100))"
proof -
  have a: "fl (9 / 8) = 9 / 8" using fl_dyadic [of 9 3] by simp
  have "round_half_up (225 / 2) = 113" by (rule round_half_up_eq) simp_all
  then show ?thesis by (simp add: round2_def a)
qed

section \<open>Execution and sorting-test lemmas\<close>

lemma show_nat_digit: "n < 10 \<Longrightarrow> show_nat n = [char_of (48 + n)]"
  by (subst show_nat.simps) simp

lemma show_int_1: "show_int 1 = ''1''"
  by code_simp

lemma show_nat_nonempty: "show_nat n \<noteq> []"
  by (subst show_nat.simps) simp

lemma digits_value_snoc: "digits_value (s @ [c]) = 10 * digits_value s + (of_char c - 48)"
  by (simp add: digits_value_def)

lemma show_nat_value: "digits_value (show_nat n) = n"
proof (induction n rule: show_nat.induct)
  case (1 n)
  show ?case
  proof (cases "n < 10")
    case True
    then show ?thesis by (simp add: show_nat_digit digits_value_def)
  next
    case False
    then have "digits_value (show_nat n) = 10 * digits_value (show_nat (n div 10)) + n mod 10"
      by (subst show_nat.simps) (simp add: digits_value_snoc)
    then show ?thesis using 1 False by simp
  qed
qed

lemma show_nat_digits: "list_all is_digit (show_nat n)"
proof (induction n rule: show_nat.induct)
  case (1 n)
  show ?case
  proof (cases "n < 10")
    case True
    then show ?thesis by (simp add: show_nat_digit is_digit_def)
  next
    case False
    have "n mod 10 < 10" by simp
    then have "is_digit (char_of (48 + n mod 10))" by (simp add: is_digit_def)
    then show ?thesis using 1 False by (subst show_nat.simps) simp
  qed
qed

lemma show_nat_canonical: "hd (show_nat n) \<noteq> CHR ''0'' \<or> length (show_nat n) = 1"
proof (induction n rule: show_nat.induct)
  case (1 n)
  show ?case
  proof (cases "n < 10")
    case True
    then show ?thesis by (simp add: show_nat_digit)
  next
    case False
    then have pos: "\<not> n div 10 < 1" by simp
    have "hd (show_nat (n div 10)) \<noteq> CHR ''0''"
    proof
      assume z: "hd (show_nat (n div 10)) = CHR ''0''"
      then have "length (show_nat (n div 10)) = 1" using 1 False by simp
      then have "show_nat (n div 10) = ''0''" using z by (cases "show_nat (n div 10)") simp_all
      then have "digits_value (show_nat (n div 10)) = 0" by (simp add: digits_value_def)
      then show False using pos by (simp add: show_nat_value)
    qed
    moreover have "hd (show_nat n) = hd (show_nat (n div 10))"
      using False by (subst show_nat.simps) (simp add: show_nat_nonempty)
    ultimately show ?thesis by simp
  qed
qed

lemma show_int_137: "show_int 137 = ''137''"
  by code_simp

lemma show_int_255: "show_int 255 = ''255''"
  by code_simp

lemma parse_message_distinct:
  "''Failed to parse output: '' @ out \<noteq> ''Process exited with code '' @ n"
  by simp

lemma arraysEqual_loop_iff:
  "length a = length b \<Longrightarrow>
   arraysEqual_loop a b i \<longleftrightarrow> (\<forall>j. i \<le> j \<and> j < length a \<longrightarrow> a ! j = b ! j)"
proof (induction a b i rule: arraysEqual_loop.induct)
  case (1 a b i)
  show ?case
  proof (cases "i < length a")
    case False
    then show ?thesis by (subst arraysEqual_loop.simps) auto
  next
    case True
    show ?thesis
    proof (cases "a ! i = b ! i")
      case False
      then show ?thesis using True by (subst arraysEqual_loop.simps) auto
    next
      case eq: True
      have "arraysEqual_loop a b (i + 1) \<longleftrightarrow> (\<forall>j. i + 1 \<le> j \<and> j < length a \<longrightarrow> a ! j = b ! j)"
        using 1 True eq by simp
      moreover have "(\<forall>j. i + 1 \<le> j \<and> j < length a \<longrightarrow> a ! j = b ! j)
          \<longleftrightarrow> (\<forall>j. i \<le> j \<and> j < length a \<longrightarrow> a ! j = b ! j)"
      proof (intro iffI allI impI)
        fix j
        assume h: "\<forall>j. i + 1 \<le> j \<and> j < length a \<longrightarrow> a ! j = b ! j" and j: "i \<le> j \<and> j < length a"
        show "a ! j = b ! j"
        proof (cases "j = i")
          case True
          then show ?thesis using eq by simp
        next
          case False
          then have "i + 1 \<le> j \<and> j < length a" using j by simp
          then show ?thesis using h by blast
        qed
      next
        fix j
        assume h: "\<forall>j. i \<le> j \<and> j < length a \<longrightarrow> a ! j = b ! j" and j: "i + 1 \<le> j \<and> j < length a"
        then have "i \<le> j \<and> j < length a" by simp
        then show "a ! j = b ! j" using h by blast
      qed
      ultimately show ?thesis using True eq by (subst arraysEqual_loop.simps) simp
    qed
  qed
qed

lemma arraysEqual_iff: "arraysEqual a b \<longleftrightarrow> a = b"
proof (cases "length a = length b")
  case True
  have "arraysEqual a b \<longleftrightarrow> arraysEqual_loop a b 0"
    using True by (simp add: arraysEqual_def)
  also have "\<dots> \<longleftrightarrow> (\<forall>j. 0 \<le> j \<and> j < length a \<longrightarrow> a ! j = b ! j)"
    using True by (rule arraysEqual_loop_iff)
  also have "\<dots> \<longleftrightarrow> a = b"
    using True by (simp add: list_eq_iff_nth_eq)
  finally show ?thesis .
next
  case False
  then show ?thesis by (auto simp: arraysEqual_def)
qed

lemma insert_by_numeric: "insert_by (\<lambda>a b. a - b) (x::int) xs = insort x xs"
  by (induction xs) auto

lemma array_sort_numeric: "array_sort (\<lambda>a b. a - b) (xs::int list) = sort xs"
  by (induction xs) (simp_all add: array_sort_def insert_by_numeric)

section \<open>Claims\<close>

text \<open>
  C1, as amended. For every list of events \<open>computeCorrectAnswer\<close> returns the list the
  specification describes: the events with \<open>duration < 50\<close> dropped, the rest grouped by
  \<open>userId\<close>, each group mapped to its id and \<open>round(mean(durations) * 100) / 100\<close> evaluated in
  binary64 (the sum, the quotient by the count, the product by 100 and the quotient by 100
  each rounded to the nearest binary64 value), the result sorted by id under the collation.
  The groups are taken in the order of \<open>Object.entries\<close> (second conjunct); under a collation
  that is a total order any other order of the groups gives the same list (first conjunct).
  The result is ascending, the empty list yields the empty list, and the three events of the
  specification's example yield \<open>user1\<close> with average 70. Seven events of duration 50 and
  one of 51 (mean 50.125) yield the binary64 value of 50.13; 39 events of duration 64 and one
  of 73 (mean 64.225) yield the binary64 value of 64.22, because the binary64 product with
  100 is below 6422.5. The second theorem is this last input: in exact arithmetic the
  formula gives 64.23.
\<close>

theorem computeCorrectAnswer_spec:
  "(total_preorder lc \<and> antisymmetric lc \<and> distinct ids \<and>
      set ids = userId ` set (filter (\<lambda>e. \<not> duration e < 50) events)
      \<longrightarrow> computeCorrectAnswer lc events = spec_compute lc ids events)
   \<and> computeCorrectAnswer lc events =
       spec_compute lc
         (OwnPropertyKeys (first_keys (map userId (filter (\<lambda>e. \<not> duration e < 50) events)))) events
   \<and> (total_preorder lc \<longrightarrow> ascending (by_id lc) (computeCorrectAnswer lc events))
   \<and> computeCorrectAnswer lc [] = []
   \<and> computeCorrectAnswer lc
       [\<lparr>userId = ''user1'', duration = 60\<rparr>, \<lparr>userId = ''user1'', duration = 80\<rparr>,
        \<lparr>userId = ''user2'', duration = 40\<rparr>] = [\<lparr>id_ua = ''user1'', avg = Num 70\<rparr>]
   \<and> computeCorrectAnswer lc
       (replicate 7 \<lparr>userId = ''u'', duration = 50\<rparr> @ [\<lparr>userId = ''u'', duration = 51\<rparr>])
       = [\<lparr>id_ua = ''u'', avg = Num (fl (5013 / 100))\<rparr>]
   \<and> 401 / 8 < fl (5013 / 100)
   \<and> computeCorrectAnswer lc
       (replicate 39 \<lparr>userId = ''u'', duration = 64\<rparr> @ [\<lparr>userId = ''u'', duration = 73\<rparr>])
       = [\<lparr>id_ua = ''u'', avg = Num (fl (6422 / 100))\<rparr>]
   \<and> fl (6422 / 100) < 2569 / 40"
proof (intro conjI impI)
  assume h: "total_preorder lc \<and> antisymmetric lc \<and> distinct ids \<and>
      set ids = userId ` set (filter (\<lambda>e. \<not> duration e < 50) events)"
  let ?ks = "OwnPropertyKeys (first_keys (map userId (filter (\<lambda>e. \<not> duration e < 50) events)))"
  have "distinct ?ks" "set ?ks = set ids" using h by simp_all
  then have "mset ?ks = mset ids" using h set_eq_iff_mset_eq_distinct by blast
  then have "spec_compute lc ?ks events = spec_compute lc ids events"
    using h by (intro spec_compute_order) simp_all
  then show "computeCorrectAnswer lc events = spec_compute lc ids events"
    by (simp only: computeCorrectAnswer_keys)
next
  show "computeCorrectAnswer lc events =
       spec_compute lc
         (OwnPropertyKeys (first_keys (map userId (filter (\<lambda>e. \<not> duration e < 50) events)))) events"
    by (rule computeCorrectAnswer_keys)
next
  assume "total_preorder lc"
  then show "ascending (by_id lc) (computeCorrectAnswer lc events)"
    by (simp add: computeCorrectAnswer_def Let_def ascending_array_sort total_preorder_by_id)
next
  show "computeCorrectAnswer lc [] = []"
    by (simp add: computeCorrectAnswer_def Object_groupBy_def Object_entries_def
        OwnPropertyKeys_def array_sort_def)
next
  show "computeCorrectAnswer lc
       [\<lparr>userId = ''user1'', duration = 60\<rparr>, \<lparr>userId = ''user1'', duration = 80\<rparr>,
        \<lparr>userId = ''user2'', duration = 40\<rparr>] = [\<lparr>id_ua = ''user1'', avg = Num 70\<rparr>]"
    by (simp add: computeCorrectAnswer_def Object_groupBy_def Object_entries_def
        OwnPropertyKeys_def array_sort_def array_index_def is_digit_def mean_duration_def
        round2_def)
next
  have "computeCorrectAnswer lc
       (replicate 7 \<lparr>userId = ''u'', duration = 50\<rparr> @ [\<lparr>userId = ''u'', duration = 51\<rparr>])
       = [\<lparr>id_ua = ''u'', avg = Num (spec_avg (map duration
           (replicate 7 \<lparr>userId = ''u'', duration = 50\<rparr> @ [\<lparr>userId = ''u'', duration = 51\<rparr>])))\<rparr>]"
    by (rule computeCorrectAnswer_one_user) auto
  then show "computeCorrectAnswer lc
       (replicate 7 \<lparr>userId = ''u'', duration = 50\<rparr> @ [\<lparr>userId = ''u'', duration = 51\<rparr>])
       = [\<lparr>id_ua = ''u'', avg = Num (fl (5013 / 100))\<rparr>]"
    by (simp add: spec_avg_eighths)
next
  show "401 / 8 < fl (5013 / 100)" by (rule fl_5013_above)
next
  have "computeCorrectAnswer lc
       (replicate 39 \<lparr>userId = ''u'', duration = 64\<rparr> @ [\<lparr>userId = ''u'', duration = 73\<rparr>])
       = [\<lparr>id_ua = ''u'', avg = Num (spec_avg (map duration
           (replicate 39 \<lparr>userId = ''u'', duration = 64\<rparr> @ [\<lparr>userId = ''u'', duration = 73\<rparr>])))\<rparr>]"
    by (rule computeCorrectAnswer_one_user) auto
  then show "computeCorrectAnswer lc
       (replicate 39 \<lparr>userId = ''u'', duration = 64\<rparr> @ [\<lparr>userId = ''u'', duration = 73\<rparr>])
       = [\<lparr>id_ua = ''u'', avg = Num (fl (6422 / 100))\<rparr>]"
    by (simp add: spec_avg_2569_40)
next
  show "fl (6422 / 100) < 2569 / 40" by (rule fl_6422_below)
qed

theorem computeCorrectAnswer_counterexample:
  "computeCorrectAnswer code_unit_compare
     (replicate 39 \<lparr>userId = ''u'', duration = 64\<rparr> @ [\<lparr>userId = ''u'', duration = 73\<rparr>])
     = [\<lparr>id_ua = ''u'', avg = Num (fl (6422 / 100))\<rparr>]
   \<and> exact_avg (map duration
       (replicate 39 \<lparr>userId = ''u'', duration = 64\<rparr> @ [\<lparr>userId = ''u'', duration = 73\<rparr>]))
     = 6423 / 100
   \<and> computeCorrectAnswer code_unit_compare
       (replicate 39 \<lparr>userId = ''u'', duration = 64\<rparr> @ [\<lparr>userId = ''u'', duration = 73\<rparr>])
     \<noteq> [\<lparr>id_ua = ''u'', avg = Num (fl (exact_avg (map duration
          (replicate 39 \<lparr>userId = ''u'', duration = 64\<rparr>
             @ [\<lparr>userId = ''u'', duration = 73\<rparr>]))))\<rparr>]
   \<and> computeCorrectAnswer code_unit_compare
       (replicate 39 \<lparr>userId = ''u'', duration = 64\<rparr> @ [\<lparr>userId = ''u'', duration = 73\<rparr>])
     \<noteq> [\<lparr>id_ua = ''u'', avg = Num (exact_avg (map duration
          (replicate 39 \<lparr>userId = ''u'', duration = 64\<rparr>
             @ [\<lparr>userId = ''u'', duration = 73\<rparr>])))\<rparr>]"
proof -
  let ?E = "replicate 39 \<lparr>userId = ''u'', duration = 64\<rparr> @ [\<lparr>userId = ''u'', duration = 73\<rparr>]"
  have "computeCorrectAnswer code_unit_compare ?E
      = [\<lparr>id_ua = ''u'', avg = Num (spec_avg (map duration ?E))\<rparr>]"
    by (rule computeCorrectAnswer_one_user) auto
  then have c: "computeCorrectAnswer code_unit_compare ?E
      = [\<lparr>id_ua = ''u'', avg = Num (fl (6422 / 100))\<rparr>]"
    by (simp add: spec_avg_2569_40)
  have e: "exact_avg (map duration ?E) = 6423 / 100"
    by (simp add: exact_avg_2569_40)
  have "fl (6422 / 100) \<noteq> fl (6423 / 100)" "fl (6422 / 100) \<noteq> 6423 / 100"
    using fl_6422_below fl_6423_above by simp_all
  then show ?thesis
    unfolding c e by simp
qed

theorem computeCorrectAnswer_spec_witness:
  "total_preorder code_unit_compare \<and> antisymmetric code_unit_compare \<and>
   distinct [''a'', ''b''] \<and>
   computeCorrectAnswer code_unit_compare
     [\<lparr>userId = ''b'', duration = 60\<rparr>, \<lparr>userId = ''a'', duration = 50\<rparr>,
      \<lparr>userId = ''7'', duration = 49\<rparr>, \<lparr>userId = ''a'', duration = 51\<rparr>]
     = spec_compute code_unit_compare [''a'', ''b'']
     [\<lparr>userId = ''b'', duration = 60\<rparr>, \<lparr>userId = ''a'', duration = 50\<rparr>,
      \<lparr>userId = ''7'', duration = 49\<rparr>, \<lparr>userId = ''a'', duration = 51\<rparr>] \<and>
   computeCorrectAnswer code_unit_compare
     [\<lparr>userId = ''b'', duration = 60\<rparr>, \<lparr>userId = ''a'', duration = 50\<rparr>,
      \<lparr>userId = ''7'', duration = 49\<rparr>, \<lparr>userId = ''a'', duration = 51\<rparr>]
     = [\<lparr>id_ua = ''a'', avg = Num (101 / 2)\<rparr>, \<lparr>id_ua = ''b'', avg = Num 60\<rparr>] \<and>
   ascending (by_id code_unit_compare)
     (computeCorrectAnswer code_unit_compare
       [\<lparr>userId = ''b'', duration = 60\<rparr>, \<lparr>userId = ''a'', duration = 50\<rparr>,
        \<lparr>userId = ''7'', duration = 49\<rparr>, \<lparr>userId = ''a'', duration = 51\<rparr>])"
proof -
  let ?evs = "[\<lparr>userId = ''b'', duration = 60\<rparr>, \<lparr>userId = ''a'', duration = 50\<rparr>,
      \<lparr>userId = ''7'', duration = 49\<rparr>, \<lparr>userId = ''a'', duration = 51\<rparr>]"
  have ids: "distinct [''a'', ''b''] \<and>
      set [''a'', ''b''] = userId ` set (filter (\<lambda>e. \<not> duration e < 50) ?evs)"
    by auto
  have eq: "computeCorrectAnswer code_unit_compare ?evs = spec_compute code_unit_compare [''a'', ''b''] ?evs"
    using computeCorrectAnswer_spec [of code_unit_compare "[''a'', ''b'']" ?evs]
      total_preorder_code_unit_compare antisymmetric_code_unit_compare ids by blast
  have "spec_compute code_unit_compare [''a'', ''b''] ?evs =
      [\<lparr>id_ua = ''a'', avg = Num (101 / 2)\<rparr>, \<lparr>id_ua = ''b'', avg = Num 60\<rparr>]"
    by (simp add: spec_compute_def array_sort_def by_id_def spec_avg_def spec_sum_def)
  moreover have "ascending (by_id code_unit_compare) (computeCorrectAnswer code_unit_compare ?evs)"
    using computeCorrectAnswer_spec [of code_unit_compare "[''a'', ''b'']" ?evs]
      total_preorder_code_unit_compare by blast
  ultimately show ?thesis
    using eq total_preorder_code_unit_compare antisymmetric_code_unit_compare by simp
qed

text \<open>
  C2, as amended. \<open>processEvents\<close> of the local benchmark returns, for each user with an
  event of \<open>duration >= 50\<close>, the mean of those durations as binary64 computes it, in the
  order of \<open>Object.entries\<close>: it neither rounds to two decimals nor sorts. Rounding each
  average to two decimals and sorting by id turns its output into that of
  \<open>computeCorrectAnswer\<close>, for every list of events. The second theorem gives inputs on which
  the two functions differ: three events that \<open>processEvents\<close> returns in the order \<open>b\<close>, \<open>a\<close>,
  and eight events of one user whose mean 50.125 is returned as it is, where rounding to two
  decimals changes it.
\<close>

theorem processEvents_refines:
  "normalize lc (processEvents events) = computeCorrectAnswer lc events \<and>
   processEvents events =
     map (\<lambda>u. \<lparr>id_ua = u, avg = spec_mean (map duration
            (filter (\<lambda>e. userId e = u) (filter (\<lambda>e. \<not> duration e < 50) events)))\<rparr>)
       (OwnPropertyKeys (first_keys (map userId (filter (\<lambda>e. \<not> duration e < 50) events))))"
proof
  show "normalize lc (processEvents events) = computeCorrectAnswer lc events"
    by (rule normalize_processEvents)
next
  show "processEvents events =
     map (\<lambda>u. \<lparr>id_ua = u, avg = spec_mean (map duration
            (filter (\<lambda>e. userId e = u) (filter (\<lambda>e. \<not> duration e < 50) events)))\<rparr>)
       (OwnPropertyKeys (first_keys (map userId (filter (\<lambda>e. \<not> duration e < 50) events))))"
    by (rule processEvents_keys)
qed

theorem processEvents_counterexample:
  "processEvents
     [\<lparr>userId = ''b'', duration = 60\<rparr>, \<lparr>userId = ''a'', duration = 50\<rparr>,
      \<lparr>userId = ''a'', duration = 51\<rparr>]
   \<noteq> computeCorrectAnswer code_unit_compare
     [\<lparr>userId = ''b'', duration = 60\<rparr>, \<lparr>userId = ''a'', duration = 50\<rparr>,
      \<lparr>userId = ''a'', duration = 51\<rparr>]
   \<and> processEvents
     [\<lparr>userId = ''b'', duration = 60\<rparr>, \<lparr>userId = ''a'', duration = 50\<rparr>,
      \<lparr>userId = ''a'', duration = 51\<rparr>]
     = [\<lparr>id_ua = ''b'', avg = Num 60\<rparr>, \<lparr>id_ua = ''a'', avg = Num (101 / 2)\<rparr>]
   \<and> computeCorrectAnswer code_unit_compare
     [\<lparr>userId = ''b'', duration = 60\<rparr>, \<lparr>userId = ''a'', duration = 50\<rparr>,
      \<lparr>userId = ''a'', duration = 51\<rparr>]
     = [\<lparr>id_ua = ''a'', avg = Num (101 / 2)\<rparr>, \<lparr>id_ua = ''b'', avg = Num 60\<rparr>]
   \<and> processEvents
     [\<lparr>userId = ''u'', duration = 50\<rparr>, \<lparr>userId = ''u'', duration = 50\<rparr>,
      \<lparr>userId = ''u'', duration = 50\<rparr>, \<lparr>userId = ''u'', duration = 50\<rparr>,
      \<lparr>userId = ''u'', duration = 50\<rparr>, \<lparr>userId = ''u'', duration = 50\<rparr>,
      \<lparr>userId = ''u'', duration = 50\<rparr>, \<lparr>userId = ''u'', duration = 51\<rparr>]
     = [\<lparr>id_ua = ''u'', avg = Num (401 / 8)\<rparr>]
   \<and> round2 (Num (401 / 8)) \<noteq> Num (401 / 8)"
proof -
  have "round2 (Num (401 / 8)) \<noteq> Num (401 / 8)"
    unfolding round2_eighths using fl_5013 by (simp only: number.inject not_False_eq_True)
  then show ?thesis
    by (simp only: processEvents_unsorted computeCorrectAnswer_sorted processEvents_unrounded)
      simp
qed

text \<open>
  C3, as amended. For a present \<open>actual\<close>, \<open>compareResults\<close> counts an expected entry when the
  first actual entry with its id (the one \<open>find\<close> returns) is within the tolerance; when the
  ids of \<open>actual\<close> are distinct this is the same as some actual entry with that id being
  within the tolerance. Two numbers are within the tolerance when the binary64 difference is
  strictly below the binary64 value of \<open>0.1\<close> in absolute value: 10.04 against 10 is, 10.20
  against 10 is not. \<open>totalCount\<close> is the length of \<open>expected\<close>. For a non-empty \<open>expected\<close> the
  accuracy is \<open>Math.round((correctCount / totalCount) * 100)\<close> with the quotient and the
  product rounded to binary64, an integer no further than \<open>1 / 2 + 2\<^sup>-\<^sup>4\<^sup>0\<close> from
  \<open>100 * correctCount / totalCount\<close>. \<open>match\<close> holds exactly when
  \<open>correctCount = totalCount\<close> and the lengths agree; one correct entry and one spurious one
  against two expected entries give 1, 50 and no match. The second theorem is an \<open>actual\<close>
  with a repeated id whose second entry is within the tolerance and is not counted, and a
  score of 23 out of 40 whose accuracy is 57 where \<open>round(100 * 23 / 40)\<close> is 58.
\<close>

theorem compareResults_scoring:
  "correctCount (compareResults expected (Some actual)) =
     length (filter (\<lambda>e. \<exists>act. find (\<lambda>a. id_ua a = id_ua e) actual = Some act
                            \<and> within_tolerance act e) expected)
   \<and> (distinct (map id_ua actual) \<longrightarrow>
        correctCount (compareResults expected (Some actual)) =
          length (filter (\<lambda>e. \<exists>a \<in> set actual. id_ua a = id_ua e \<and> within_tolerance a e) expected))
   \<and> (within_tolerance \<lparr>id_ua = i, avg = Num x\<rparr> \<lparr>id_ua = j, avg = Num y\<rparr>
        \<longleftrightarrow> \<bar>fl (x - y)\<bar> < fl (1 / 10))
   \<and> within_tolerance \<lparr>id_ua = i, avg = Num (fl (1004 / 100))\<rparr> \<lparr>id_ua = j, avg = Num 10\<rparr>
   \<and> \<not> within_tolerance \<lparr>id_ua = i, avg = Num (fl (1020 / 100))\<rparr> \<lparr>id_ua = j, avg = Num 10\<rparr>
   \<and> totalCount (compareResults expected (Some actual)) = length expected
   \<and> (expected \<noteq> [] \<longrightarrow>
        accuracy (compareResults expected (Some actual)) =
          Num (of_int (round_half_up (fl (fl
            (of_nat (correctCount (compareResults expected (Some actual)))
               / of_nat (totalCount (compareResults expected (Some actual)))) * 100))))
        \<and> \<bar>of_int (round_half_up (fl (fl
            (of_nat (correctCount (compareResults expected (Some actual)))
               / of_nat (totalCount (compareResults expected (Some actual)))) * 100)))
           - 100 * (of_nat (correctCount (compareResults expected (Some actual)))
               / of_nat (totalCount (compareResults expected (Some actual))) :: rat)\<bar>
          \<le> 1 / 2 + 1 / 2 ^ 40)
   \<and> (match (compareResults expected (Some actual)) \<longleftrightarrow>
        correctCount (compareResults expected (Some actual))
          = totalCount (compareResults expected (Some actual))
        \<and> length actual = length expected)
   \<and> (id_ua found = id_ua exa \<and> within_tolerance found exa \<and> id_ua exb \<noteq> id_ua exa \<and>
        id_ua spur \<noteq> id_ua exa \<and> id_ua spur \<noteq> id_ua exb \<longrightarrow>
        compareResults [exa, exb] (Some [found, spur]) =
          \<lparr>match = False, correctCount = 1, totalCount = 2, accuracy = Num 50\<rparr>)"
proof (intro conjI impI)
  show "correctCount (compareResults expected (Some actual)) =
     length (filter (\<lambda>e. \<exists>act. find (\<lambda>a. id_ua a = id_ua e) actual = Some act
                            \<and> within_tolerance act e) expected)"
    by (rule correctCount_eq)
next
  assume "distinct (map id_ua actual)"
  then show "correctCount (compareResults expected (Some actual)) =
          length (filter (\<lambda>e. \<exists>a \<in> set actual. id_ua a = id_ua e \<and> within_tolerance a e) expected)"
    by (simp only: correctCount_eq first_match_distinct)
next
  show "within_tolerance \<lparr>id_ua = i, avg = Num x\<rparr> \<lparr>id_ua = j, avg = Num y\<rparr>
        \<longleftrightarrow> \<bar>fl (x - y)\<bar> < fl (1 / 10)"
    by (rule within_tolerance_Num)
next
  show "within_tolerance \<lparr>id_ua = i, avg = Num (fl (1004 / 100))\<rparr> \<lparr>id_ua = j, avg = Num 10\<rparr>"
    by (rule tolerance_004)
next
  show "\<not> within_tolerance \<lparr>id_ua = i, avg = Num (fl (1020 / 100))\<rparr> \<lparr>id_ua = j, avg = Num 10\<rparr>"
    by (rule tolerance_020)
next
  show total: "totalCount (compareResults expected (Some actual)) = length expected"
    by (simp add: compareResults_def Let_def)
  assume ne: "expected \<noteq> []"
  then show "accuracy (compareResults expected (Some actual)) =
          Num (of_int (round_half_up (fl (fl
            (of_nat (correctCount (compareResults expected (Some actual)))
               / of_nat (totalCount (compareResults expected (Some actual)))) * 100))))"
    unfolding total by (rule accuracy_eq)
  show "\<bar>of_int (round_half_up (fl (fl
            (of_nat (correctCount (compareResults expected (Some actual)))
               / of_nat (totalCount (compareResults expected (Some actual)))) * 100)))
           - 100 * (of_nat (correctCount (compareResults expected (Some actual)))
               / of_nat (totalCount (compareResults expected (Some actual))) :: rat)\<bar>
          \<le> 1 / 2 + 1 / 2 ^ 40"
    unfolding total using ne by (rule accuracy_near)
next
  show "match (compareResults expected (Some actual)) \<longleftrightarrow>
        correctCount (compareResults expected (Some actual))
          = totalCount (compareResults expected (Some actual))
        \<and> length actual = length expected"
    by (simp add: compareResults_def Let_def)
next
  assume "id_ua found = id_ua exa \<and> within_tolerance found exa \<and> id_ua exb \<noteq> id_ua exa \<and>
        id_ua spur \<noteq> id_ua exa \<and> id_ua spur \<noteq> id_ua exb"
  then show "compareResults [exa, exb] (Some [found, spur]) =
          \<lparr>match = False, correctCount = 1, totalCount = 2, accuracy = Num 50\<rparr>"
    by (simp add: spurious_extra)
qed

theorem compareResults_counterexample:
  "correctCount (compareResults [\<lparr>id_ua = ''a'', avg = Num 10\<rparr>]
       (Some [\<lparr>id_ua = ''a'', avg = Num 11\<rparr>, \<lparr>id_ua = ''a'', avg = Num 10\<rparr>])) = 0
   \<and> id_ua \<lparr>id_ua = ''a'', avg = Num 10\<rparr> = id_ua \<lparr>id_ua = ''a'', avg = Num 10\<rparr>
   \<and> within_tolerance \<lparr>id_ua = ''a'', avg = Num 10\<rparr> \<lparr>id_ua = ''a'', avg = Num 10\<rparr>
   \<and> \<lparr>id_ua = ''a'', avg = Num 10\<rparr>
        \<in> set [\<lparr>id_ua = ''a'', avg = Num 11\<rparr>, \<lparr>id_ua = ''a'', avg = Num 10\<rparr>]
   \<and> correctCount (compareResults
       [\<lparr>id_ua = ''u01'', avg = Num 1\<rparr>, \<lparr>id_ua = ''u02'', avg = Num
        1\<rparr>, \<lparr>id_ua = ''u03'', avg = Num 1\<rparr>, \<lparr>id_ua = ''u04'', avg =
        Num 1\<rparr>, \<lparr>id_ua = ''u05'', avg = Num 1\<rparr>, \<lparr>id_ua = ''u06'',
        avg = Num 1\<rparr>, \<lparr>id_ua = ''u07'', avg = Num 1\<rparr>, \<lparr>id_ua =
        ''u08'', avg = Num 1\<rparr>, \<lparr>id_ua = ''u09'', avg = Num 1\<rparr>,
        \<lparr>id_ua = ''u10'', avg = Num 1\<rparr>, \<lparr>id_ua = ''u11'', avg = Num
        1\<rparr>, \<lparr>id_ua = ''u12'', avg = Num 1\<rparr>, \<lparr>id_ua = ''u13'', avg =
        Num 1\<rparr>, \<lparr>id_ua = ''u14'', avg = Num 1\<rparr>, \<lparr>id_ua = ''u15'',
        avg = Num 1\<rparr>, \<lparr>id_ua = ''u16'', avg = Num 1\<rparr>, \<lparr>id_ua =
        ''u17'', avg = Num 1\<rparr>, \<lparr>id_ua = ''u18'', avg = Num 1\<rparr>,
        \<lparr>id_ua = ''u19'', avg = Num 1\<rparr>, \<lparr>id_ua = ''u20'', avg = Num
        1\<rparr>, \<lparr>id_ua = ''u21'', avg = Num 1\<rparr>, \<lparr>id_ua = ''u22'', avg =
        Num 1\<rparr>, \<lparr>id_ua = ''u23'', avg = Num 1\<rparr>, \<lparr>id_ua = ''u24'',
        avg = Num 1\<rparr>, \<lparr>id_ua = ''u25'', avg = Num 1\<rparr>, \<lparr>id_ua =
        ''u26'', avg = Num 1\<rparr>, \<lparr>id_ua = ''u27'', avg = Num 1\<rparr>,
        \<lparr>id_ua = ''u28'', avg = Num 1\<rparr>, \<lparr>id_ua = ''u29'', avg = Num
        1\<rparr>, \<lparr>id_ua = ''u30'', avg = Num 1\<rparr>, \<lparr>id_ua = ''u31'', avg =
        Num 1\<rparr>, \<lparr>id_ua = ''u32'', avg = Num 1\<rparr>, \<lparr>id_ua = ''u33'',
        avg = Num 1\<rparr>, \<lparr>id_ua = ''u34'', avg = Num 1\<rparr>, \<lparr>id_ua =
        ''u35'', avg = Num 1\<rparr>, \<lparr>id_ua = ''u36'', avg = Num 1\<rparr>,
        \<lparr>id_ua = ''u37'', avg = Num 1\<rparr>, \<lparr>id_ua = ''u38'', avg = Num
        1\<rparr>, \<lparr>id_ua = ''u39'', avg = Num 1\<rparr>, \<lparr>id_ua = ''u40'', avg =
        Num 1\<rparr>]
       (Some (take 23
       [\<lparr>id_ua = ''u01'', avg = Num 1\<rparr>, \<lparr>id_ua = ''u02'', avg = Num
        1\<rparr>, \<lparr>id_ua = ''u03'', avg = Num 1\<rparr>, \<lparr>id_ua = ''u04'', avg =
        Num 1\<rparr>, \<lparr>id_ua = ''u05'', avg = Num 1\<rparr>, \<lparr>id_ua = ''u06'',
        avg = Num 1\<rparr>, \<lparr>id_ua = ''u07'', avg = Num 1\<rparr>, \<lparr>id_ua =
        ''u08'', avg = Num 1\<rparr>, \<lparr>id_ua = ''u09'', avg = Num 1\<rparr>,
        \<lparr>id_ua = ''u10'', avg = Num 1\<rparr>, \<lparr>id_ua = ''u11'', avg = Num
        1\<rparr>, \<lparr>id_ua = ''u12'', avg = Num 1\<rparr>, \<lparr>id_ua = ''u13'', avg =
        Num 1\<rparr>, \<lparr>id_ua = ''u14'', avg = Num 1\<rparr>, \<lparr>id_ua = ''u15'',
        avg = Num 1\<rparr>, \<lparr>id_ua = ''u16'', avg = Num 1\<rparr>, \<lparr>id_ua =
        ''u17'', avg = Num 1\<rparr>, \<lparr>id_ua = ''u18'', avg = Num 1\<rparr>,
        \<lparr>id_ua = ''u19'', avg = Num 1\<rparr>, \<lparr>id_ua = ''u20'', avg = Num
        1\<rparr>, \<lparr>id_ua = ''u21'', avg = Num 1\<rparr>, \<lparr>id_ua = ''u22'', avg =
        Num 1\<rparr>, \<lparr>id_ua = ''u23'', avg = Num 1\<rparr>, \<lparr>id_ua = ''u24'',
        avg = Num 1\<rparr>, \<lparr>id_ua = ''u25'', avg = Num 1\<rparr>, \<lparr>id_ua =
        ''u26'', avg = Num 1\<rparr>, \<lparr>id_ua = ''u27'', avg = Num 1\<rparr>,
        \<lparr>id_ua = ''u28'', avg = Num 1\<rparr>, \<lparr>id_ua = ''u29'', avg = Num
        1\<rparr>, \<lparr>id_ua = ''u30'', avg = Num 1\<rparr>, \<lparr>id_ua = ''u31'', avg =
        Num 1\<rparr>, \<lparr>id_ua = ''u32'', avg = Num 1\<rparr>, \<lparr>id_ua = ''u33'',
        avg = Num 1\<rparr>, \<lparr>id_ua = ''u34'', avg = Num 1\<rparr>, \<lparr>id_ua =
        ''u35'', avg = Num 1\<rparr>, \<lparr>id_ua = ''u36'', avg = Num 1\<rparr>,
        \<lparr>id_ua = ''u37'', avg = Num 1\<rparr>, \<lparr>id_ua = ''u38'', avg = Num
        1\<rparr>, \<lparr>id_ua = ''u39'', avg = Num 1\<rparr>, \<lparr>id_ua = ''u40'', avg =
        Num 1\<rparr>]))) = 23
   \<and> accuracy (compareResults
       [\<lparr>id_ua = ''u01'', avg = Num 1\<rparr>, \<lparr>id_ua = ''u02'', avg = Num
        1\<rparr>, \<lparr>id_ua = ''u03'', avg = Num 1\<rparr>, \<lparr>id_ua = ''u04'', avg =
        Num 1\<rparr>, \<lparr>id_ua = ''u05'', avg = Num 1\<rparr>, \<lparr>id_ua = ''u06'',
        avg = Num 1\<rparr>, \<lparr>id_ua = ''u07'', avg = Num 1\<rparr>, \<lparr>id_ua =
        ''u08'', avg = Num 1\<rparr>, \<lparr>id_ua = ''u09'', avg = Num 1\<rparr>,
        \<lparr>id_ua = ''u10'', avg = Num 1\<rparr>, \<lparr>id_ua = ''u11'', avg = Num
        1\<rparr>, \<lparr>id_ua = ''u12'', avg = Num 1\<rparr>, \<lparr>id_ua = ''u13'', avg =
        Num 1\<rparr>, \<lparr>id_ua = ''u14'', avg = Num 1\<rparr>, \<lparr>id_ua = ''u15'',
        avg = Num 1\<rparr>, \<lparr>id_ua = ''u16'', avg = Num 1\<rparr>, \<lparr>id_ua =
        ''u17'', avg = Num 1\<rparr>, \<lparr>id_ua = ''u18'', avg = Num 1\<rparr>,
        \<lparr>id_ua = ''u19'', avg = Num 1\<rparr>, \<lparr>id_ua = ''u20'', avg = Num
        1\<rparr>, \<lparr>id_ua = ''u21'', avg = Num 1\<rparr>, \<lparr>id_ua = ''u22'', avg =
        Num 1\<rparr>, \<lparr>id_ua = ''u23'', avg = Num 1\<rparr>, \<lparr>id_ua = ''u24'',
        avg = Num 1\<rparr>, \<lparr>id_ua = ''u25'', avg = Num 1\<rparr>, \<lparr>id_ua =
        ''u26'', avg = Num 1\<rparr>, \<lparr>id_ua = ''u27'', avg = Num 1\<rparr>,
        \<lparr>id_ua = ''u28'', avg = Num 1\<rparr>, \<lparr>id_ua = ''u29'', avg = Num
        1\<rparr>, \<lparr>id_ua = ''u30'', avg = Num 1\<rparr>, \<lparr>id_ua = ''u31'', avg =
        Num 1\<rparr>, \<lparr>id_ua = ''u32'', avg = Num 1\<rparr>, \<lparr>id_ua = ''u33'',
        avg = Num 1\<rparr>, \<lparr>id_ua = ''u34'', avg = Num 1\<rparr>, \<lparr>id_ua =
        ''u35'', avg = Num 1\<rparr>, \<lparr>id_ua = ''u36'', avg = Num 1\<rparr>,
        \<lparr>id_ua = ''u37'', avg = Num 1\<rparr>, \<lparr>id_ua = ''u38'', avg = Num
        1\<rparr>, \<lparr>id_ua = ''u39'', avg = Num 1\<rparr>, \<lparr>id_ua = ''u40'', avg =
        Num 1\<rparr>]
       (Some (take 23
       [\<lparr>id_ua = ''u01'', avg = Num 1\<rparr>, \<lparr>id_ua = ''u02'', avg = Num
        1\<rparr>, \<lparr>id_ua = ''u03'', avg = Num 1\<rparr>, \<lparr>id_ua = ''u04'', avg =
        Num 1\<rparr>, \<lparr>id_ua = ''u05'', avg = Num 1\<rparr>, \<lparr>id_ua = ''u06'',
        avg = Num 1\<rparr>, \<lparr>id_ua = ''u07'', avg = Num 1\<rparr>, \<lparr>id_ua =
        ''u08'', avg = Num 1\<rparr>, \<lparr>id_ua = ''u09'', avg = Num 1\<rparr>,
        \<lparr>id_ua = ''u10'', avg = Num 1\<rparr>, \<lparr>id_ua = ''u11'', avg = Num
        1\<rparr>, \<lparr>id_ua = ''u12'', avg = Num 1\<rparr>, \<lparr>id_ua = ''u13'', avg =
        Num 1\<rparr>, \<lparr>id_ua = ''u14'', avg = Num 1\<rparr>, \<lparr>id_ua = ''u15'',
        avg = Num 1\<rparr>, \<lparr>id_ua = ''u16'', avg = Num 1\<rparr>, \<lparr>id_ua =
        ''u17'', avg = Num 1\<rparr>, \<lparr>id_ua = ''u18'', avg = Num 1\<rparr>,
        \<lparr>id_ua = ''u19'', avg = Num 1\<rparr>, \<lparr>id_ua = ''u20'', avg = Num
        1\<rparr>, \<lparr>id_ua = ''u21'', avg = Num 1\<rparr>, \<lparr>id_ua = ''u22'', avg =
        Num 1\<rparr>, \<lparr>id_ua = ''u23'', avg = Num 1\<rparr>, \<lparr>id_ua = ''u24'',
        avg = Num 1\<rparr>, \<lparr>id_ua = ''u25'', avg = Num 1\<rparr>, \<lparr>id_ua =
        ''u26'', avg = Num 1\<rparr>, \<lparr>id_ua = ''u27'', avg = Num 1\<rparr>,
        \<lparr>id_ua = ''u28'', avg = Num 1\<rparr>, \<lparr>id_ua = ''u29'', avg = Num
        1\<rparr>, \<lparr>id_ua = ''u30'', avg = Num 1\<rparr>, \<lparr>id_ua = ''u31'', avg =
        Num 1\<rparr>, \<lparr>id_ua = ''u32'', avg = Num 1\<rparr>, \<lparr>id_ua = ''u33'',
        avg = Num 1\<rparr>, \<lparr>id_ua = ''u34'', avg = Num 1\<rparr>, \<lparr>id_ua =
        ''u35'', avg = Num 1\<rparr>, \<lparr>id_ua = ''u36'', avg = Num 1\<rparr>,
        \<lparr>id_ua = ''u37'', avg = Num 1\<rparr>, \<lparr>id_ua = ''u38'', avg = Num
        1\<rparr>, \<lparr>id_ua = ''u39'', avg = Num 1\<rparr>, \<lparr>id_ua = ''u40'', avg =
        Num 1\<rparr>]))) = Num 57
   \<and> Math_round (js_div (js_mul (Num 100) (Num 23)) (Num 40)) = Num 58"
proof -
  let ?E = "[\<lparr>id_ua = ''u01'', avg = Num 1\<rparr>, \<lparr>id_ua = ''u02'', avg = Num
        1\<rparr>, \<lparr>id_ua = ''u03'', avg = Num 1\<rparr>, \<lparr>id_ua = ''u04'', avg =
        Num 1\<rparr>, \<lparr>id_ua = ''u05'', avg = Num 1\<rparr>, \<lparr>id_ua = ''u06'',
        avg = Num 1\<rparr>, \<lparr>id_ua = ''u07'', avg = Num 1\<rparr>, \<lparr>id_ua =
        ''u08'', avg = Num 1\<rparr>, \<lparr>id_ua = ''u09'', avg = Num 1\<rparr>,
        \<lparr>id_ua = ''u10'', avg = Num 1\<rparr>, \<lparr>id_ua = ''u11'', avg = Num
        1\<rparr>, \<lparr>id_ua = ''u12'', avg = Num 1\<rparr>, \<lparr>id_ua = ''u13'', avg =
        Num 1\<rparr>, \<lparr>id_ua = ''u14'', avg = Num 1\<rparr>, \<lparr>id_ua = ''u15'',
        avg = Num 1\<rparr>, \<lparr>id_ua = ''u16'', avg = Num 1\<rparr>, \<lparr>id_ua =
        ''u17'', avg = Num 1\<rparr>, \<lparr>id_ua = ''u18'', avg = Num 1\<rparr>,
        \<lparr>id_ua = ''u19'', avg = Num 1\<rparr>, \<lparr>id_ua = ''u20'', avg = Num
        1\<rparr>, \<lparr>id_ua = ''u21'', avg = Num 1\<rparr>, \<lparr>id_ua = ''u22'', avg =
        Num 1\<rparr>, \<lparr>id_ua = ''u23'', avg = Num 1\<rparr>, \<lparr>id_ua = ''u24'',
        avg = Num 1\<rparr>, \<lparr>id_ua = ''u25'', avg = Num 1\<rparr>, \<lparr>id_ua =
        ''u26'', avg = Num 1\<rparr>, \<lparr>id_ua = ''u27'', avg = Num 1\<rparr>,
        \<lparr>id_ua = ''u28'', avg = Num 1\<rparr>, \<lparr>id_ua = ''u29'', avg = Num
        1\<rparr>, \<lparr>id_ua = ''u30'', avg = Num 1\<rparr>, \<lparr>id_ua = ''u31'', avg =
        Num 1\<rparr>, \<lparr>id_ua = ''u32'', avg = Num 1\<rparr>, \<lparr>id_ua = ''u33'',
        avg = Num 1\<rparr>, \<lparr>id_ua = ''u34'', avg = Num 1\<rparr>, \<lparr>id_ua =
        ''u35'', avg = Num 1\<rparr>, \<lparr>id_ua = ''u36'', avg = Num 1\<rparr>,
        \<lparr>id_ua = ''u37'', avg = Num 1\<rparr>, \<lparr>id_ua = ''u38'', avg = Num
        1\<rparr>, \<lparr>id_ua = ''u39'', avg = Num 1\<rparr>, \<lparr>id_ua = ''u40'', avg =
        Num 1\<rparr>]"
  have dup: "correctCount (compareResults [\<lparr>id_ua = ''a'', avg = Num 10\<rparr>]
       (Some [\<lparr>id_ua = ''a'', avg = Num 11\<rparr>, \<lparr>id_ua = ''a'', avg = Num 10\<rparr>])) = 0"
    by (simp add: compareResults_def within_tolerance_def tolerance_lt_1)
  have same: "within_tolerance \<lparr>id_ua = ''a'', avg = Num 10\<rparr> \<lparr>id_ua = ''a'', avg = Num 10\<rparr>"
    by (rule within_tolerance_same) simp
  have ne: "?E \<noteq> []" by simp
  have len: "length ?E = 40" by simp
  have "accuracy (compareResults ?E (Some (take 23 ?E))) =
      Num (of_int (round_half_up (fl (fl (of_nat 23 / of_nat 40) * 100))))"
    using accuracy_eq [OF ne, of "take 23 ?E"] by (simp only: count_23_40 len)
  then have acc: "accuracy (compareResults ?E (Some (take 23 ?E))) = Num 57"
    by (simp only: of_nat_numeral percent_23_40) simp
  show ?thesis
    using dup same count_23_40 acc percent_23_40_exact by simp
qed

theorem compareResults_scoring_witness:
  "distinct (map id_ua [\<lparr>id_ua = ''a'', avg = Num (161 / 16)\<rparr>, \<lparr>id_ua = ''z'', avg = Num 5\<rparr>])
   \<and> [\<lparr>id_ua = ''a'', avg = Num 10\<rparr>, \<lparr>id_ua = ''b'', avg = Num 20\<rparr>] \<noteq> []
   \<and> within_tolerance \<lparr>id_ua = ''a'', avg = Num (161 / 16)\<rparr> \<lparr>id_ua = ''a'', avg = Num 10\<rparr>
   \<and> compareResults [\<lparr>id_ua = ''a'', avg = Num 10\<rparr>, \<lparr>id_ua = ''b'', avg = Num 20\<rparr>]
        (Some [\<lparr>id_ua = ''a'', avg = Num (161 / 16)\<rparr>, \<lparr>id_ua = ''z'', avg = Num 5\<rparr>])
      = \<lparr>match = False, correctCount = 1, totalCount = 2, accuracy = Num 50\<rparr>"
proof -
  have "fl (1 / 16) = 1 / 16" using fl_dyadic [of 1 4] by simp
  then have tol: "within_tolerance \<lparr>id_ua = ''a'', avg = Num (161 / 16)\<rparr> \<lparr>id_ua = ''a'', avg = Num 10\<rparr>"
    using tolerance_bounds by (simp add: within_tolerance_def)
  have "compareResults [\<lparr>id_ua = ''a'', avg = Num 10\<rparr>, \<lparr>id_ua = ''b'', avg = Num 20\<rparr>]
        (Some [\<lparr>id_ua = ''a'', avg = Num (161 / 16)\<rparr>, \<lparr>id_ua = ''z'', avg = Num 5\<rparr>])
      = \<lparr>match = False, correctCount = 1, totalCount = 2, accuracy = Num 50\<rparr>"
    using tol compareResults_scoring [where found = "\<lparr>id_ua = ''a'', avg = Num (161 / 16)\<rparr>"
        and exa = "\<lparr>id_ua = ''a'', avg = Num 10\<rparr>" and exb = "\<lparr>id_ua = ''b'', avg = Num 20\<rparr>"
        and spur = "\<lparr>id_ua = ''z'', avg = Num 5\<rparr>" and expected = "[]" and actual = "[]"
        and i = "[]" and j = "[]" and x = 0 and y = 0]
    by simp
  then show ?thesis using tol by simp
qed

text \<open>
  C4, as amended. On a non-zero exit code (or none) \<open>executeGeneratedCode\<close> resolves with no
  result and the captured stderr, or \<open>Process exited with code N\<close> when stderr is empty,
  whatever stdout holds: exit code 1 with \<open>boom\<close> on stderr gives the error \<open>boom\<close>. \<open>N\<close> is
  the decimal numeral of the exit code (\<open>1\<close>, \<open>137\<close>, \<open>255\<close>; digits only, no leading zero,
  a minus sign for a negative number) or \<open>null\<close>. On exit code 0 a failing parse gives no
  result and the error \<open>Failed to parse output:\<close> followed by the first 200 characters of
  stdout; a successful parse gives the normalized result and no error. A result is absent
  exactly when an error is set. The text of a parse failure differs from every exit-code
  message, but the result carries nothing else that tells the two failures apart: a run
  with a non-zero exit code is reported as a parse failure is, exactly when its stderr is
  that text. The second theorem is such a run.
\<close>

theorem executeGeneratedCode_outcomes:
  "(code \<noteq> Some 0 \<longrightarrow>
      executeGeneratedCode lc JSON_parse latency code stdout stderr =
        \<lparr>result = None, latencyMs = latency,
         error = Some (if stderr = [] then
                         ''Process exited with code '' @
                           (case code of None \<Rightarrow> ''null'' | Some n \<Rightarrow> show_int n)
                       else stderr)\<rparr>)
   \<and> executeGeneratedCode lc JSON_parse latency (Some 1) stdout ''boom'' =
        \<lparr>result = None, latencyMs = latency, error = Some ''boom''\<rparr>
   \<and> executeGeneratedCode lc JSON_parse latency (Some 1) stdout [] =
        \<lparr>result = None, latencyMs = latency, error = Some ''Process exited with code 1''\<rparr>
   \<and> executeGeneratedCode lc JSON_parse latency (Some 137) stdout [] =
        \<lparr>result = None, latencyMs = latency, error = Some ''Process exited with code 137''\<rparr>
   \<and> executeGeneratedCode lc JSON_parse latency (Some 255) stdout [] =
        \<lparr>result = None, latencyMs = latency, error = Some ''Process exited with code 255''\<rparr>
   \<and> executeGeneratedCode lc JSON_parse latency None stdout [] =
        \<lparr>result = None, latencyMs = latency, error = Some ''Process exited with code null''\<rparr>
   \<and> (0 \<le> i \<longrightarrow> list_all is_digit (show_int i) \<and> digits_value (show_int i) = nat i
        \<and> (hd (show_int i) \<noteq> CHR ''0'' \<or> length (show_int i) = 1))
   \<and> (i < 0 \<longrightarrow> show_int i = CHR ''-'' # show_int (- i))
   \<and> (JSON_parse (trim stdout) = None \<longrightarrow>
        executeGeneratedCode lc JSON_parse latency (Some 0) stdout stderr =
          \<lparr>result = None, latencyMs = latency,
           error = Some (''Failed to parse output: '' @ take 200 stdout)\<rparr>)
   \<and> (JSON_parse (trim stdout) = Some rs \<longrightarrow>
        executeGeneratedCode lc JSON_parse latency (Some 0) stdout stderr =
          \<lparr>result = Some (normalize lc rs), latencyMs = latency, error = None\<rparr>)
   \<and> ''Failed to parse output: '' @ take 200 stdout \<noteq> ''Process exited with code '' @ n
   \<and> (code \<noteq> Some 0 \<and> JSON_parse (trim out0) = None \<longrightarrow>
        (executeGeneratedCode lc JSON_parse latency code stdout stderr
           = executeGeneratedCode lc JSON_parse latency (Some 0) out0 err0
         \<longleftrightarrow> stderr = ''Failed to parse output: '' @ take 200 out0))
   \<and> (result (executeGeneratedCode lc JSON_parse latency code stdout stderr) = None
        \<longleftrightarrow> error (executeGeneratedCode lc JSON_parse latency code stdout stderr) \<noteq> None)"
proof (intro conjI impI)
  assume "code \<noteq> Some 0"
  then show "executeGeneratedCode lc JSON_parse latency code stdout stderr =
        \<lparr>result = None, latencyMs = latency,
         error = Some (if stderr = [] then
                         ''Process exited with code '' @
                           (case code of None \<Rightarrow> ''null'' | Some n \<Rightarrow> show_int n)
                       else stderr)\<rparr>"
    by (simp add: executeGeneratedCode_def)
next
  show "executeGeneratedCode lc JSON_parse latency (Some 1) stdout ''boom'' =
        \<lparr>result = None, latencyMs = latency, error = Some ''boom''\<rparr>"
    by (simp add: executeGeneratedCode_def)
next
  show "executeGeneratedCode lc JSON_parse latency (Some 1) stdout [] =
        \<lparr>result = None, latencyMs = latency, error = Some ''Process exited with code 1''\<rparr>"
    by (simp add: executeGeneratedCode_def show_int_1)
next
  show "executeGeneratedCode lc JSON_parse latency (Some 137) stdout [] =
        \<lparr>result = None, latencyMs = latency, error = Some ''Process exited with code 137''\<rparr>"
    by (simp add: executeGeneratedCode_def show_int_137)
next
  show "executeGeneratedCode lc JSON_parse latency (Some 255) stdout [] =
        \<lparr>result = None, latencyMs = latency, error = Some ''Process exited with code 255''\<rparr>"
    by (simp add: executeGeneratedCode_def show_int_255)
next
  show "executeGeneratedCode lc JSON_parse latency None stdout [] =
        \<lparr>result = None, latencyMs = latency, error = Some ''Process exited with code null''\<rparr>"
    by (simp add: executeGeneratedCode_def)
next
  assume "0 \<le> i"
  then show "list_all is_digit (show_int i)" and "digits_value (show_int i) = nat i"
    and "hd (show_int i) \<noteq> CHR ''0'' \<or> length (show_int i) = 1"
    using show_nat_canonical [of "nat i"]
    by (simp_all add: show_int_def show_nat_digits show_nat_value)
next
  assume "i < 0"
  then show "show_int i = CHR ''-'' # show_int (- i)"
    by (simp add: show_int_def)
next
  assume "JSON_parse (trim stdout) = None"
  then show "executeGeneratedCode lc JSON_parse latency (Some 0) stdout stderr =
          \<lparr>result = None, latencyMs = latency,
           error = Some (''Failed to parse output: '' @ take 200 stdout)\<rparr>"
    by (simp add: executeGeneratedCode_def)
next
  assume "JSON_parse (trim stdout) = Some rs"
  then show "executeGeneratedCode lc JSON_parse latency (Some 0) stdout stderr =
          \<lparr>result = Some (normalize lc rs), latencyMs = latency, error = None\<rparr>"
    by (simp add: executeGeneratedCode_def)
next
  show "''Failed to parse output: '' @ take 200 stdout \<noteq> ''Process exited with code '' @ n"
    by (rule parse_message_distinct)
next
  assume h: "code \<noteq> Some 0 \<and> JSON_parse (trim out0) = None"
  show "executeGeneratedCode lc JSON_parse latency code stdout stderr
           = executeGeneratedCode lc JSON_parse latency (Some 0) out0 err0
         \<longleftrightarrow> stderr = ''Failed to parse output: '' @ take 200 out0"
  proof (cases "stderr = []")
    case True
    have "''Process exited with code '' @ (case code of None \<Rightarrow> ''null'' | Some n \<Rightarrow> show_int n)
        \<noteq> ''Failed to parse output: '' @ take 200 out0"
      by simp
    then show ?thesis using h True by (simp add: executeGeneratedCode_def)
  next
    case False
    then show ?thesis using h by (simp add: executeGeneratedCode_def)
  qed
next
  show "result (executeGeneratedCode lc JSON_parse latency code stdout stderr) = None
        \<longleftrightarrow> error (executeGeneratedCode lc JSON_parse latency code stdout stderr) \<noteq> None"
    by (simp add: executeGeneratedCode_def split: option.splits)
qed

theorem executeGeneratedCode_counterexample:
  "executeGeneratedCode code_unit_compare (\<lambda>s. None) 7 (Some 1) [] ''Failed to parse output: x''
     = \<lparr>result = None, latencyMs = 7, error = Some ''Failed to parse output: x''\<rparr>
   \<and> executeGeneratedCode code_unit_compare (\<lambda>s. None) 7 (Some 0) ''x'' []
     = \<lparr>result = None, latencyMs = 7, error = Some ''Failed to parse output: x''\<rparr>
   \<and> executeGeneratedCode code_unit_compare (\<lambda>s. None) 7 (Some 1) [] ''Failed to parse output: x''
     = executeGeneratedCode code_unit_compare (\<lambda>s. None) 7 (Some 0) ''x'' []"
  by (simp add: executeGeneratedCode_def)

theorem executeGeneratedCode_outcomes_witness:
  "Some (1::int) \<noteq> Some 0
   \<and> executeGeneratedCode code_unit_compare (\<lambda>s. None) 7 (Some 1) ''[]'' ''boom'' =
        \<lparr>result = None, latencyMs = 7, error = Some ''boom''\<rparr>
   \<and> (\<lambda>s. None :: UserAverage list option) (trim ''nope'') = None
   \<and> executeGeneratedCode code_unit_compare (\<lambda>s. None) 7 (Some 0) ''nope'' [] =
        \<lparr>result = None, latencyMs = 7, error = Some ''Failed to parse output: nope''\<rparr>
   \<and> (\<lambda>s. if s = ''[]'' then Some [] else None) (trim '' [] '') = Some ([] :: UserAverage list)
   \<and> executeGeneratedCode code_unit_compare (\<lambda>s. if s = ''[]'' then Some [] else None) 7
        (Some 0) '' [] '' [] = \<lparr>result = Some [], latencyMs = 7, error = None\<rparr>
   \<and> (0::int) \<le> 137 \<and> list_all is_digit (show_int 137) \<and> digits_value (show_int 137) = 137
   \<and> (- 2 :: int) < 0 \<and> show_int (- 2) = ''-2''
   \<and> executeGeneratedCode code_unit_compare (\<lambda>s. None) 7 (Some 1) ''[]'' ''boom''
        \<noteq> executeGeneratedCode code_unit_compare (\<lambda>s. None) 7 (Some 0) ''nope'' ''boom''"
proof -
  have t: "trim '' [] '' = ''[]''"
    by (simp add: trim_def is_space_def)
  have n: "normalize code_unit_compare [] = []"
    by (simp add: normalize_def array_sort_def)
  have a: "executeGeneratedCode code_unit_compare (\<lambda>s. None) 7 (Some 1) ''[]'' ''boom'' =
        \<lparr>result = None, latencyMs = 7, error = Some ''boom''\<rparr>"
    using executeGeneratedCode_outcomes
      [where code = "Some 1" and lc = code_unit_compare and JSON_parse = "\<lambda>s. None"
        and latency = 7 and stdout = "''[]''" and stderr = "''boom''" and rs = "[]" and n = "[]"
        and i = 0 and ?out0.0 = "[]" and ?err0.0 = "[]"]
    by simp
  have b: "executeGeneratedCode code_unit_compare (\<lambda>s. None) 7 (Some 0) ''nope'' [] =
        \<lparr>result = None, latencyMs = 7, error = Some ''Failed to parse output: nope''\<rparr>"
    using executeGeneratedCode_outcomes
      [where code = "Some 0" and lc = code_unit_compare and JSON_parse = "\<lambda>s. None"
        and latency = 7 and stdout = "''nope''" and stderr = "[]" and rs = "[]" and n = "[]"
        and i = 0 and ?out0.0 = "[]" and ?err0.0 = "[]"]
    by simp
  have c: "executeGeneratedCode code_unit_compare (\<lambda>s. if s = ''[]'' then Some [] else None) 7
        (Some 0) '' [] '' [] = \<lparr>result = Some [], latencyMs = 7, error = None\<rparr>"
    using executeGeneratedCode_outcomes
      [where code = "Some 0" and lc = code_unit_compare
        and JSON_parse = "\<lambda>s. if s = ''[]'' then Some [] else None"
        and latency = 7 and stdout = "'' [] ''" and stderr = "[]" and rs = "[]" and n = "[]"
        and i = 0 and ?out0.0 = "[]" and ?err0.0 = "[]"]
      t n
    by simp
  have d: "list_all is_digit (show_int 137) \<and> digits_value (show_int 137) = 137"
    using executeGeneratedCode_outcomes
      [where code = "Some 1" and lc = code_unit_compare and JSON_parse = "\<lambda>s. None"
        and latency = 7 and stdout = "[]" and stderr = "[]" and rs = "[]" and n = "[]"
        and i = 137 and ?out0.0 = "[]" and ?err0.0 = "[]"]
    by simp
  have s2: "show_int 2 = ''2''" by code_simp
  have e: "show_int (- 2) = ''-2''"
    using executeGeneratedCode_outcomes
      [where code = "Some 1" and lc = code_unit_compare and JSON_parse = "\<lambda>s. None"
        and latency = 7 and stdout = "[]" and stderr = "[]" and rs = "[]" and n = "[]"
        and i = "- 2" and ?out0.0 = "[]" and ?err0.0 = "[]"]
      s2
    by simp
  have h1: "Some (1::int) \<noteq> Some 0" by simp
  have h2: "''boom'' \<noteq> ''Failed to parse output: '' @ take 200 ''nope''" by simp
  have f: "executeGeneratedCode code_unit_compare (\<lambda>s. None) 7 (Some 1) ''[]'' ''boom''
        \<noteq> executeGeneratedCode code_unit_compare (\<lambda>s. None) 7 (Some 0) ''nope'' ''boom''"
    using executeGeneratedCode_outcomes
      [where code = "Some 1" and lc = code_unit_compare and JSON_parse = "\<lambda>s. None"
        and latency = 7 and stdout = "''[]''" and stderr = "''boom''" and rs = "[]" and n = "[]"
        and i = 0 and ?out0.0 = "''nope''" and ?err0.0 = "''boom''"]
      h1 h2
    by blast
  show ?thesis using a b c d e f t by simp
qed

text \<open>
  C5. For an absent \<open>actual\<close>, \<open>compareResults\<close> returns no match, \<open>correctCount = 0\<close>,
  \<open>totalCount\<close> the length of \<open>expected\<close> and accuracy 0. For an empty \<open>expected\<close> and a present
  \<open>actual\<close> the accuracy is \<open>Math.round((0 / 0) * 100)\<close>, which is \<open>NaN\<close>: the division is not
  guarded.
\<close>

theorem compareResults_absent_or_empty:
  "compareResults expected None =
     \<lparr>match = False, correctCount = 0, totalCount = length expected, accuracy = Num 0\<rparr>
   \<and> accuracy (compareResults [] (Some actual)) = NaN
   \<and> correctCount (compareResults [] (Some actual)) = 0
   \<and> totalCount (compareResults [] (Some actual)) = 0
   \<and> match (compareResults [] (Some actual)) = (actual = [])"
  by (simp add: compareResults_def inf_of_sign_def)

text \<open>
  C6. \<open>generateEvents\<close> is a function of \<open>count\<close> alone: the generator state is seeded with
  12345 inside every call, so the result has \<open>count\<close> events, the event of index \<open>i\<close> is the
  one drawn after \<open>2 * i\<close> steps from the seed, whatever \<open>count\<close> is, and a call with a larger
  count repeats the events of a smaller one. Two calls with the same count return the same
  sequence.
\<close>

theorem generateEvents_deterministic:
  "generateEvents cnt = map event_at [0..<cnt]
   \<and> length (generateEvents cnt) = cnt
   \<and> (\<forall>i < cnt. generateEvents cnt ! i = event_at i)
   \<and> take cnt (generateEvents (cnt + k)) = generateEvents cnt"
proof (intro conjI)
  show "generateEvents cnt = map event_at [0..<cnt]" by (rule generateEvents_eq)
  show "length (generateEvents cnt) = cnt" by (simp add: generateEvents_eq)
  show "\<forall>i < cnt. generateEvents cnt ! i = event_at i" by (simp add: generateEvents_eq)
  show "take cnt (generateEvents (cnt + k)) = generateEvents cnt"
    by (simp add: generateEvents_eq take_map)
qed

theorem generateEvents_deterministic_witness:
  "(0::nat) < 1 \<and> generateEvents 1 ! 0 = \<lparr>userId = ''user33'', duration = 68\<rparr>
   \<and> generateEvents 1 = [\<lparr>userId = ''user33'', duration = 68\<rparr>]
   \<and> take 1 (generateEvents 2) = [\<lparr>userId = ''user33'', duration = 68\<rparr>]"
  using generateEvents_deterministic [of 1 1] by (simp add: event_at_0 numeral_2_eq_2)

text \<open>
  C7. Every event of the seeded \<open>generateEvents\<close> has a user id \<open>user1\<close> .. \<open>user50\<close> and a
  duration from 10 to 200, and so has the event of the unseeded \<open>generateEvent\<close> when the two
  results of \<open>Math.random()\<close> are in \<open>[0, 1)\<close>, which for a binary64 value means at most
  \<open>1 - 2\<^sup>-\<^sup>5\<^sup>3\<close>. For the seeded generator this rests on \<open>random() < 1\<close>: no state
  reachable from the seed is \<open>0x7fffffff\<close>, because no step of the generator returns it. A
  draw of exactly 1 would give \<open>user51\<close> or the duration 201.
\<close>

theorem generators_in_range:
  "(\<forall>e \<in> set (generateEvents cnt).
      (\<exists>k. 1 \<le> k \<and> k \<le> 50 \<and> userId e = ''user'' @ show_int k)
      \<and> 10 \<le> duration e \<and> duration e \<le> 200)
   \<and> (0 \<le> r1 \<and> r1 \<le> 1 - 1 / 2 ^ 53 \<and> 0 \<le> r2 \<and> r2 \<le> 1 - 1 / 2 ^ 53 \<longrightarrow>
        (\<exists>k. 1 \<le> k \<and> k \<le> 50 \<and> userId (generateEvent r1 r2) = ''user'' @ show_int k)
        \<and> 10 \<le> duration (generateEvent r1 r2) \<and> duration (generateEvent r1 r2) \<le> 200)
   \<and> (lcg_next ^^ n) 12345 < 2147483647
   \<and> random_value ((lcg_next ^^ n) 12345) < 1
   \<and> lcg_next c \<noteq> 2147483647
   \<and> userId (generateEvent 1 r2) = ''user'' @ show_int 51
   \<and> duration (generateEvent r1 1) = 201"
proof (intro conjI ballI impI)
  fix e
  assume "e \<in> set (generateEvents cnt)"
  then obtain i where "e = event_at i" by (auto simp: generateEvents_eq)
  then show "\<exists>k. 1 \<le> k \<and> k \<le> 50 \<and> userId e = ''user'' @ show_int k"
    and "10 \<le> duration e" and "duration e \<le> 200"
    using event_at_range [of i] by simp_all
next
  assume h: "0 \<le> r1 \<and> r1 \<le> 1 - 1 / 2 ^ 53 \<and> 0 \<le> r2 \<and> r2 \<le> 1 - 1 / 2 ^ 53"
  have "(1 - 1 / 2 ^ 53) * (1 + 1 / 2 ^ 53) < (1::rat)" by simp
  then show "\<exists>k. 1 \<le> k \<and> k \<le> 50 \<and> userId (generateEvent r1 r2) = ''user'' @ show_int k"
    and "10 \<le> duration (generateEvent r1 r2)" and "duration (generateEvent r1 r2) \<le> 200"
    using h in_range [of r1 "1 - 1 / 2 ^ 53" r2] by (simp_all add: generateEvent_def)
next
  show b: "(lcg_next ^^ n) 12345 < 2147483647" by (rule reachable_bound)
  have "random_value ((lcg_next ^^ n) 12345) \<le> 2147483646 / 2147483647 * (1 + 1 / 2 ^ 53)"
    using random_value_range [OF b] by simp
  moreover have "2147483646 / 2147483647 * (1 + 1 / 2 ^ 53) < (1::rat)" by simp
  ultimately show "random_value ((lcg_next ^^ n) 12345) < 1" by linarith
  show "lcg_next c \<noteq> 2147483647" by (rule lcg_next_never_max)
  show "userId (generateEvent 1 r2) = ''user'' @ show_int 51"
    by (simp add: generateEvent_def NUM_USERS_def)
  show "duration (generateEvent r1 1) = 201"
    by (simp add: generateEvent_def MAX_DURATION_def MIN_DURATION_def)
qed

theorem generators_in_range_witness:
  "\<lparr>userId = ''user33'', duration = 68\<rparr> \<in> set (generateEvents 1)
   \<and> (1::int) \<le> 33 \<and> (33::int) \<le> 50 \<and> ''user33'' = ''user'' @ show_int 33
   \<and> (10::int) \<le> 68 \<and> (68::int) \<le> 200
   \<and> (0::rat) \<le> 0 \<and> (0::rat) \<le> 1 - 1 / 2 ^ 53 \<and> (0::rat) \<le> 1 / 2 \<and> (1::rat) / 2 \<le> 1 - 1 / 2 ^ 53
   \<and> generateEvent 0 (1 / 2) = \<lparr>userId = ''user1'', duration = 105\<rparr>
   \<and> 10 \<le> duration (generateEvent 0 (1 / 2)) \<and> duration (generateEvent 0 (1 / 2)) \<le> 200"
proof -
  have g: "generateEvents 1 = [\<lparr>userId = ''user33'', duration = 68\<rparr>]"
    by (simp add: generateEvents_eq event_at_0)
  have u: "show_int 33 = ''33''" by code_simp
  have u1: "show_int 1 = ''1''" by code_simp
  have f: "\<lfloor>(191::rat) / 2\<rfloor> = 95" by linarith
  have e: "generateEvent 0 (1 / 2) = \<lparr>userId = ''user1'', duration = 105\<rparr>"
    by (simp add: generateEvent_def NUM_USERS_def MAX_DURATION_def MIN_DURATION_def u1 f)
  have "10 \<le> duration (generateEvent 0 (1 / 2)) \<and> duration (generateEvent 0 (1 / 2)) \<le> 200"
    using generators_in_range [where cnt = 1 and ?r1.0 = 0 and ?r2.0 = "1 / 2" and n = 0 and c = 0]
    by simp
  then show ?thesis using g u e by simp
qed

text \<open>
  C8, as amended. Under a collation that is a total preorder, normalizing a normalized
  sequence changes nothing when every average of the input is at most \<open>2\<^sup>4\<^sup>3\<close> in absolute
  value (or is not finite); and a sequence whose averages are fixed by the rounding and whose
  ids are ascending is returned as it is. Without the bound the step is not idempotent in
  binary64: the second theorem is the average 35184372088832.015625, which the step rounds
  to the binary64 value of 35184372088832.02 and a second application moves to that of
  35184372088832.03.
\<close>

theorem normalize_idempotent:
  "(total_preorder lc \<and> (\<forall>r \<in> set rs. \<forall>x. avg r = Num x \<longrightarrow> \<bar>x\<bar> \<le> 2 ^ 43)
      \<longrightarrow> normalize lc (normalize lc rs) = normalize lc rs) \<and>
   ((\<forall>r \<in> set rs. round2 (avg r) = avg r) \<and> ascending (by_id lc) rs \<longrightarrow> normalize lc rs = rs)"
proof (intro conjI impI)
  assume h: "total_preorder lc \<and> (\<forall>r \<in> set rs. \<forall>x. avg r = Num x \<longrightarrow> \<bar>x\<bar> \<le> 2 ^ 43)"
  have "ascending (by_id lc) (normalize lc rs)"
    unfolding normalize_def using h by (intro ascending_array_sort total_preorder_by_id) simp
  moreover have "normalize lc (normalize lc rs) = array_sort (by_id lc) (normalize lc rs)"
    using h by (intro normalize_twice) blast
  ultimately show "normalize lc (normalize lc rs) = normalize lc rs"
    by (simp add: array_sort_ascending)
next
  assume h: "(\<forall>r \<in> set rs. round2 (avg r) = avg r) \<and> ascending (by_id lc) rs"
  then have "map (\<lambda>r. \<lparr>id_ua = id_ua r, avg = round2 (avg r)\<rparr>) rs = rs"
    by (simp add: map_idI)
  then show "normalize lc rs = rs"
    using h by (simp add: normalize_def array_sort_ascending)
qed

theorem normalize_idempotent_counterexample:
  "normalize code_unit_compare [\<lparr>id_ua = ''a'', avg = Num (2251799813685249 / 64)\<rparr>]
     = [\<lparr>id_ua = ''a'', avg = Num (4503599627370499 / 128)\<rparr>]
   \<and> normalize code_unit_compare [\<lparr>id_ua = ''a'', avg = Num (4503599627370499 / 128)\<rparr>]
     = [\<lparr>id_ua = ''a'', avg = Num (4503599627370500 / 128)\<rparr>]
   \<and> normalize code_unit_compare
       (normalize code_unit_compare [\<lparr>id_ua = ''a'', avg = Num (2251799813685249 / 64)\<rparr>])
     \<noteq> normalize code_unit_compare [\<lparr>id_ua = ''a'', avg = Num (2251799813685249 / 64)\<rparr>]"
proof -
  have a: "normalize code_unit_compare [\<lparr>id_ua = ''a'', avg = Num (2251799813685249 / 64)\<rparr>]
     = [\<lparr>id_ua = ''a'', avg = Num (4503599627370499 / 128)\<rparr>]"
    by (simp only: normalize_single round2_large_1 UserAverage.simps)
  have b: "normalize code_unit_compare [\<lparr>id_ua = ''a'', avg = Num (4503599627370499 / 128)\<rparr>]
     = [\<lparr>id_ua = ''a'', avg = Num (4503599627370500 / 128)\<rparr>]"
    by (simp only: normalize_single round2_large_2 UserAverage.simps)
  have "(4503599627370500::rat) / 128 \<noteq> 4503599627370499 / 128" by simp
  then have "[\<lparr>id_ua = ''a'', avg = Num (4503599627370500 / 128)\<rparr>]
      \<noteq> [\<lparr>id_ua = ''a'', avg = Num (4503599627370499 / 128)\<rparr>]"
    by (simp only: list.inject UserAverage.simps number.inject simp_thms) simp
  then show ?thesis by (simp only: a b) simp
qed

theorem normalize_idempotent_witness:
  "total_preorder code_unit_compare
   \<and> \<bar>5 / 4 :: rat\<bar> \<le> 2 ^ 43 \<and> \<bar>2 :: rat\<bar> \<le> 2 ^ 43
   \<and> normalize code_unit_compare (normalize code_unit_compare
        [\<lparr>id_ua = ''b'', avg = Num (5 / 4)\<rparr>, \<lparr>id_ua = ''a'', avg = Num 2\<rparr>])
      = normalize code_unit_compare
        [\<lparr>id_ua = ''b'', avg = Num (5 / 4)\<rparr>, \<lparr>id_ua = ''a'', avg = Num 2\<rparr>]
   \<and> round2 (Num 2) = Num 2
   \<and> round2 (Num (5 / 4)) = Num (5 / 4)
   \<and> ascending (by_id code_unit_compare)
        [\<lparr>id_ua = ''a'', avg = Num 2\<rparr>, \<lparr>id_ua = ''b'', avg = Num (5 / 4)\<rparr>]
   \<and> normalize code_unit_compare
        [\<lparr>id_ua = ''a'', avg = Num 2\<rparr>, \<lparr>id_ua = ''b'', avg = Num (5 / 4)\<rparr>]
      = [\<lparr>id_ua = ''a'', avg = Num 2\<rparr>, \<lparr>id_ua = ''b'', avg = Num (5 / 4)\<rparr>]"
proof -
  let ?rs = "[\<lparr>id_ua = ''b'', avg = Num (5 / 4)\<rparr>, \<lparr>id_ua = ''a'', avg = Num 2\<rparr>]"
  let ?done = "[\<lparr>id_ua = ''a'', avg = Num 2\<rparr>, \<lparr>id_ua = ''b'', avg = Num (5 / 4)\<rparr>]"
  have asc: "ascending (by_id code_unit_compare) ?done"
    by (simp add: by_id_def)
  have small: "\<forall>r \<in> set ?rs. \<forall>x. avg r = Num x \<longrightarrow> \<bar>x\<bar> \<le> 2 ^ 43" by simp
  have "normalize code_unit_compare (normalize code_unit_compare ?rs)
      = normalize code_unit_compare ?rs"
    using normalize_idempotent [of code_unit_compare ?rs] total_preorder_code_unit_compare small
    by blast
  moreover have "normalize code_unit_compare ?done = ?done"
    using normalize_idempotent [of code_unit_compare ?done] round2_2 round2_quarter asc by simp
  ultimately show ?thesis
    using total_preorder_code_unit_compare round2_2 round2_quarter asc by simp
qed

text \<open>
  C9. \<open>runSingleTest\<close> passes a sample exactly when the response has no error and its array
  is the input sorted ascending: \<open>arraysEqual\<close> holds when the lengths agree and the
  elements agree at every position. A parse error or an absent result does not pass, and
  neither does an array with some, not all, elements in place: for \<open>[3, 1, 2]\<close> the answer
  \<open>[1, 3, 2]\<close> has one element of three in position and fails.
\<close>

theorem runSingleTest_exact_match:
  "(passed (runSingleTest numbers response) \<longleftrightarrow>
      \<not> truthy (sort_error response) \<and> sort_result response = Some (sort numbers))
   \<and> (arraysEqual a b \<longleftrightarrow> length a = length b \<and> (\<forall>i < length a. a ! i = b ! i))
   \<and> (truthy (sort_error response) \<or> sort_result response = None
        \<longrightarrow> \<not> passed (runSingleTest numbers response))
   \<and> \<not> passed (runSingleTest [3, 1, 2]
          \<lparr>sort_result = Some [1, 3, 2], sort_tokensUsed = t, sort_latencyMs = l,
           sort_error = None\<rparr>)
   \<and> tokensUsed (runSingleTest numbers response) = sort_tokensUsed response
   \<and> test_latencyMs (runSingleTest numbers response) = sort_latencyMs response"
proof (intro conjI impI)
  show "passed (runSingleTest numbers response) \<longleftrightarrow>
      \<not> truthy (sort_error response) \<and> sort_result response = Some (sort numbers)"
    by (cases "sort_result response")
      (auto simp: runSingleTest_def Let_def arraysEqual_iff array_sort_numeric)
next
  show "arraysEqual a b \<longleftrightarrow> length a = length b \<and> (\<forall>i < length a. a ! i = b ! i)"
    by (simp add: arraysEqual_iff list_eq_iff_nth_eq)
next
  assume "truthy (sort_error response) \<or> sort_result response = None"
  then show "\<not> passed (runSingleTest numbers response)"
    by (auto simp: runSingleTest_def Let_def)
next
  show "\<not> passed (runSingleTest [3, 1, 2]
          \<lparr>sort_result = Some [1, 3, 2], sort_tokensUsed = t, sort_latencyMs = l,
           sort_error = None\<rparr>)"
    by (simp add: runSingleTest_def Let_def arraysEqual_iff array_sort_numeric truthy_def)
next
  show "tokensUsed (runSingleTest numbers response) = sort_tokensUsed response"
    by (simp add: runSingleTest_def Let_def)
next
  show "test_latencyMs (runSingleTest numbers response) = sort_latencyMs response"
    by (simp add: runSingleTest_def Let_def)
qed

theorem runSingleTest_exact_match_witness:
  "passed (runSingleTest [3, 1, 2]
      \<lparr>sort_result = Some [1, 2, 3], sort_tokensUsed = 40, sort_latencyMs = 900,
       sort_error = None\<rparr>)
   \<and> \<not> truthy None
   \<and> sort [3, 1, 2 :: int] = [1, 2, 3]
   \<and> truthy (Some ''Parse error'')
   \<and> \<not> passed (runSingleTest [3, 1, 2]
      \<lparr>sort_result = None, sort_tokensUsed = 40, sort_latencyMs = 900,
       sort_error = Some ''Parse error''\<rparr>)
   \<and> arraysEqual [1, 2, 3 :: int] [1, 2, 3]"
proof -
  let ?ok = "\<lparr>sort_result = Some [1, 2, 3], sort_tokensUsed = 40, sort_latencyMs = 900,
       sort_error = None\<rparr>"
  let ?bad = "\<lparr>sort_result = None, sort_tokensUsed = 40, sort_latencyMs = 900,
       sort_error = Some ''Parse error''\<rparr>"
  have s: "sort [3, 1, 2 :: int] = [1, 2, 3]" by simp
  have "passed (runSingleTest [3, 1, 2] ?ok)"
    using runSingleTest_exact_match [where numbers = "[3, 1, 2]" and response = ?ok
        and a = "[] :: int list" and b = "[]" and t = 0 and l = 0] s
    by (simp add: truthy_def)
  moreover have "\<not> passed (runSingleTest [3, 1, 2] ?bad)"
    using runSingleTest_exact_match [where numbers = "[3, 1, 2]" and response = ?bad
        and a = "[] :: int list" and b = "[]" and t = 0 and l = 0]
    by (simp add: truthy_def)
  moreover have "arraysEqual [1, 2, 3 :: int] [1, 2, 3]"
    using runSingleTest_exact_match [where numbers = "[]" and response = ?ok
        and a = "[1, 2, 3 :: int]" and b = "[1, 2, 3]" and t = 0 and l = 0]
    by simp
  ultimately show ?thesis using s by (simp add: truthy_def)
qed

text \<open>
  C10. The normalization of a parsed result changes only the averages: the normalized list
  is a permutation of the input with each \<open>avg\<close> replaced by its rounding to two decimals,
  so it has the same length and the same multiset of ids; this list is what
  \<open>executeGeneratedCode\<close> returns for a successful parse.
\<close>

theorem normalize_frame:
  "mset (normalize lc rs) = mset (map (\<lambda>r. r\<lparr>avg := round2 (avg r)\<rparr>) rs) \<and>
   length (normalize lc rs) = length rs \<and>
   mset (map id_ua (normalize lc rs)) = mset (map id_ua rs) \<and>
   (JSON_parse (trim stdout) = Some rs \<longrightarrow>
      result (executeGeneratedCode lc JSON_parse latency (Some 0) stdout stderr)
        = Some (normalize lc rs))"
proof (intro conjI impI)
  have same: "(\<lambda>r. \<lparr>id_ua = id_ua r, avg = round2 (avg r)\<rparr>) = (\<lambda>r. r\<lparr>avg := round2 (avg r)\<rparr>)"
    by (rule ext) simp
  show m: "mset (normalize lc rs) = mset (map (\<lambda>r. r\<lparr>avg := round2 (avg r)\<rparr>) rs)"
    by (simp add: normalize_def mset_array_sort same)
  show "length (normalize lc rs) = length rs"
    by (simp add: normalize_def)
  have "mset (map id_ua (normalize lc rs)) = image_mset id_ua (mset (normalize lc rs))"
    by simp
  also have "\<dots> = image_mset id_ua (mset (map (\<lambda>r. r\<lparr>avg := round2 (avg r)\<rparr>) rs))"
    by (simp only: m)
  also have "\<dots> = mset (map id_ua rs)"
    by (simp add: multiset.map_comp comp_def)
  finally show "mset (map id_ua (normalize lc rs)) = mset (map id_ua rs)" .
next
  assume "JSON_parse (trim stdout) = Some rs"
  then show "result (executeGeneratedCode lc JSON_parse latency (Some 0) stdout stderr)
        = Some (normalize lc rs)"
    by (simp add: executeGeneratedCode_def)
qed

theorem normalize_frame_witness:
  "(\<lambda>s. Some [\<lparr>id_ua = ''b'', avg = Num (9 / 8)\<rparr>, \<lparr>id_ua = ''a'', avg = Num 2\<rparr>])
      (trim ''x'')
     = Some [\<lparr>id_ua = ''b'', avg = Num (9 / 8)\<rparr>, \<lparr>id_ua = ''a'', avg = Num 2\<rparr>]
   \<and> result (executeGeneratedCode code_unit_compare
        (\<lambda>s. Some [\<lparr>id_ua = ''b'', avg = Num (9 / 8)\<rparr>, \<lparr>id_ua = ''a'', avg = Num 2\<rparr>])
        3 (Some 0) ''x'' [])
     = Some (normalize code_unit_compare
        [\<lparr>id_ua = ''b'', avg = Num (9 / 8)\<rparr>, \<lparr>id_ua = ''a'', avg = Num 2\<rparr>])
   \<and> normalize code_unit_compare
        [\<lparr>id_ua = ''b'', avg = Num (9 / 8)\<rparr>, \<lparr>id_ua = ''a'', avg = Num 2\<rparr>]
     = [\<lparr>id_ua = ''a'', avg = Num 2\<rparr>, \<lparr>id_ua = ''b'', avg = Num (fl (113 / 100))\<rparr>]
   \<and> mset (map id_ua (normalize code_unit_compare
        [\<lparr>id_ua = ''b'', avg = Num (9 / 8)\<rparr>, \<lparr>id_ua = ''a'', avg = Num 2\<rparr>]))
     = {#''a'', ''b''#}
   \<and> length (normalize code_unit_compare
        [\<lparr>id_ua = ''b'', avg = Num (9 / 8)\<rparr>, \<lparr>id_ua = ''a'', avg = Num 2\<rparr>]) = 2"
proof -
  have n: "normalize code_unit_compare
        [\<lparr>id_ua = ''b'', avg = Num (9 / 8)\<rparr>, \<lparr>id_ua = ''a'', avg = Num 2\<rparr>]
     = [\<lparr>id_ua = ''a'', avg = Num 2\<rparr>, \<lparr>id_ua = ''b'', avg = Num (fl (113 / 100))\<rparr>]"
    by (simp add: normalize_def array_sort_def by_id_def round2_2 round2_eighth)
  show ?thesis
    using normalize_frame [of code_unit_compare
      "[\<lparr>id_ua = ''b'', avg = Num (9 / 8)\<rparr>, \<lparr>id_ua = ''a'', avg = Num 2\<rparr>]"
      "\<lambda>s. Some [\<lparr>id_ua = ''b'', avg = Num (9 / 8)\<rparr>, \<lparr>id_ua = ''a'', avg = Num 2\<rparr>]"
      "''x''" 3 "[]"] n
    by simp
qed

end
